theory Spec2Isabelle
  imports Main
begin

section \<open>Coalescing: data model\<close>

text \<open>
  A constraint is a row of integers \<open>[c\<^sub>0, c\<^sub>1, \<dots>]\<close> of length \<open>1 + total\<close>; the operations
  of \<open>isl_seq\<close> are applied by the coalescer to whole rows only.
\<close>

type_synonym row = "int list"

definition isl_seq_neg :: "row \<Rightarrow> row" where
  "isl_seq_neg r = map uminus r"

definition isl_seq_eq :: "row \<Rightarrow> row \<Rightarrow> bool" where
  "isl_seq_eq r1 r2 = (r1 = r2)"

definition isl_seq_is_neg :: "row \<Rightarrow> row \<Rightarrow> bool" where
  "isl_seq_is_neg r1 r2 = (r1 = map uminus r2)"

definition isl_int_abs_gt :: "int \<Rightarrow> int \<Rightarrow> bool" where
  "isl_int_abs_gt a b = (\<bar>a\<bar> > \<bar>b\<bar>)"

text \<open>\<open>isl_seq_abs_max\<close>: start from zero, keep the absolute value of every entry that beats it.\<close>

definition isl_seq_abs_max :: "int list \<Rightarrow> int" where
  "isl_seq_abs_max xs = foldl (\<lambda>m x. if isl_int_abs_gt x m then \<bar>x\<bar> else m) 0 xs"

text \<open>Adding a constant to the constant term of a row (\<open>isl_int_add_ui(row[0], row[0], 1)\<close> etc.).\<close>

definition add_const :: "int \<Rightarrow> row \<Rightarrow> row" where
  "add_const c r = (case r of [] \<Rightarrow> [] | x # xs \<Rightarrow> (x + c) # xs)"

text \<open>
  A basic map: the space dimension, the rows of its integer divisions, equalities and
  inequalities, and the flags the coalescer reads or sets.
\<close>

record isl_basic_map =
  bm_dim :: nat
  bm_div :: "row list"
  bm_eq :: "row list"
  bm_ineq :: "row list"
  bm_final :: bool
  bm_rational :: bool
  bm_no_implicit :: bool
  bm_no_redundant :: bool

definition isl_basic_map_total_dim :: "isl_basic_map \<Rightarrow> nat" where
  "isl_basic_map_total_dim bmap = bm_dim bmap + length (bm_div bmap)"

text \<open>The result of \<open>isl_tab_ineq_type\<close> (declared in \<open>isl_tab.h\<close>).\<close>

datatype isl_ineq_type =
    isl_ineq_error
  | isl_ineq_redundant
  | isl_ineq_separate
  | isl_ineq_cut
  | isl_ineq_adj_eq
  | isl_ineq_adj_ineq

text \<open>
  The \<open>STATUS_*\<close> constants. \<open>STATUS_UNSET\<close> is the zero left by \<open>isl_calloc_array\<close> in the
  entries a classification loop did not reach.
\<close>

datatype status =
    STATUS_UNSET
  | STATUS_ERROR
  | STATUS_REDUNDANT
  | STATUS_VALID
  | STATUS_SEPARATE
  | STATUS_CUT
  | STATUS_ADJ_EQ
  | STATUS_ADJ_INEQ

text \<open>
  The simplex tableau and the other collaborators outside the two source files are
  parameters of the model. An operation that returns a negative value or \<open>NULL\<close> on failure
  returns \<open>None\<close>. A snapshot (\<open>isl_tab_snap\<close>) is the tableau at the moment it was taken.
  An \<open>isl_set\<close> is the list of its basic sets.
\<close>

record 'tab isl_ops =
  isl_tab_ineq_type :: "'tab \<Rightarrow> row \<Rightarrow> isl_ineq_type"
  isl_tab_is_redundant :: "'tab \<Rightarrow> nat \<Rightarrow> bool"
  isl_tab_is_equality :: "'tab \<Rightarrow> nat \<Rightarrow> bool"
  isl_tab_empty :: "'tab \<Rightarrow> bool"
  isl_tab_mark_rational :: "'tab \<Rightarrow> 'tab option"
  isl_tab_select_facet :: "'tab \<Rightarrow> nat \<Rightarrow> 'tab option"
  isl_tab_rollback :: "'tab \<Rightarrow> 'tab \<Rightarrow> 'tab option"
  isl_tab_extend_cons :: "'tab \<Rightarrow> nat \<Rightarrow> 'tab option"
  isl_tab_unrestrict :: "'tab \<Rightarrow> nat \<Rightarrow> 'tab option"
  isl_tab_relax :: "'tab \<Rightarrow> nat \<Rightarrow> 'tab option"
  isl_tab_add_ineq :: "'tab \<Rightarrow> row \<Rightarrow> 'tab option"
  isl_tab_add_eq :: "'tab \<Rightarrow> row \<Rightarrow> 'tab option"
  isl_tab_detect_redundant :: "'tab \<Rightarrow> 'tab option"
  isl_tab_detect_implicit_equalities :: "'tab \<Rightarrow> 'tab option"
  isl_tab_from_basic_map :: "isl_basic_map \<Rightarrow> 'tab option"
  isl_tab_make_equalities_explicit :: "'tab \<Rightarrow> isl_basic_map \<Rightarrow> (isl_basic_map \<times> 'tab) option"
  isl_basic_map_update_from_tab :: "isl_basic_map \<Rightarrow> 'tab \<Rightarrow> isl_basic_map option"
  isl_basic_map_underlying_set :: "isl_basic_map \<Rightarrow> isl_basic_map"
  isl_basic_map_detect_inequality_pairs :: "isl_basic_map \<Rightarrow> isl_basic_map"
  isl_basic_map_gauss :: "isl_basic_map \<Rightarrow> isl_basic_map"
  isl_basic_map_finalize :: "isl_basic_map \<Rightarrow> isl_basic_map option"
  isl_set_wrap_facet :: "isl_basic_map list \<Rightarrow> row \<Rightarrow> row \<Rightarrow> row option"
  isl_basic_map_divs_known :: "isl_basic_map \<Rightarrow> bool option"
  isl_merge_divs :: "row list \<Rightarrow> row list \<Rightarrow> (row list \<times> nat list \<times> nat list) option"
  isl_basic_set_expand_divs :: "isl_basic_map \<Rightarrow> row list \<Rightarrow> nat list \<Rightarrow> isl_basic_map option"
  isl_map_remove_empty_parts :: "isl_basic_map list \<Rightarrow> isl_basic_map list option"
  isl_map_sort_divs :: "isl_basic_map list \<Rightarrow> isl_basic_map list option"
  coalesce_bounded_wrapping :: bool

text \<open>
  The state of a coalescing run: the array \<open>map->p\<close> (with \<open>map->n\<close> its length) and the
  parallel array \<open>tabs\<close> of tableaux.
\<close>

type_synonym 'tab cstate = "isl_basic_map list \<times> 'tab list"

section \<open>Coalescing: classification of constraints\<close>

definition status_in :: "('tab, 'x) isl_ops_scheme \<Rightarrow> row \<Rightarrow> 'tab \<Rightarrow> status" where
  "status_in ops ineq tab =
    (case isl_tab_ineq_type ops tab ineq of
       isl_ineq_error \<Rightarrow> STATUS_ERROR
     | isl_ineq_redundant \<Rightarrow> STATUS_VALID
     | isl_ineq_separate \<Rightarrow> STATUS_SEPARATE
     | isl_ineq_cut \<Rightarrow> STATUS_CUT
     | isl_ineq_adj_eq \<Rightarrow> STATUS_ADJ_EQ
     | isl_ineq_adj_ineq \<Rightarrow> STATUS_ADJ_INEQ)"

text \<open>
  \<open>eq_status_in\<close>: each equality is negated in place and classified, then negated back and
  classified again, so entry \<open>2k\<close> is the status of the negated row and entry \<open>2k + 1\<close> that of
  the row itself. An error gives \<open>NULL\<close>; a \<open>separate\<close> result ends the loop and leaves the
  remaining entries at zero.
\<close>

fun eq_status_loop :: "('tab, 'x) isl_ops_scheme \<Rightarrow> row list \<Rightarrow> 'tab \<Rightarrow> status list option" where
  "eq_status_loop ops [] tab_j = Some []"
| "eq_status_loop ops (e # es) tab_j =
    (let e1 = isl_seq_neg e; s0 = status_in ops e1 tab_j in
     if s0 = STATUS_ERROR then None
     else
       let e2 = isl_seq_neg e1; s1 = status_in ops e2 tab_j in
       if s1 = STATUS_ERROR then None
       else if s0 = STATUS_SEPARATE \<or> s1 = STATUS_SEPARATE
         then Some (s0 # s1 # replicate (2 * length es) STATUS_UNSET)
         else (case eq_status_loop ops es tab_j of
                 None \<Rightarrow> None
               | Some rest \<Rightarrow> Some (s0 # s1 # rest)))"

definition eq_status_in :: "('tab, 'x) isl_ops_scheme \<Rightarrow> isl_basic_map \<Rightarrow> 'tab \<Rightarrow> status list option" where
  "eq_status_in ops bmap_i tab_j = eq_status_loop ops (bm_eq bmap_i) tab_j"

text \<open>
  \<open>ineq_status_in\<close>: an inequality that \<open>tab_i\<close> (if given) marks redundant is \<open>STATUS_REDUNDANT\<close>
  and is not classified; \<open>k\<close> is the index of the inequality.
\<close>

fun ineq_status_loop ::
  "('tab, 'x) isl_ops_scheme \<Rightarrow> nat \<Rightarrow> 'tab option \<Rightarrow> 'tab \<Rightarrow> nat \<Rightarrow> row list \<Rightarrow> status list option" where
  "ineq_status_loop ops n_eq tab_i tab_j k [] = Some []"
| "ineq_status_loop ops n_eq tab_i tab_j k (r # rs) =
    (if (case tab_i of None \<Rightarrow> False | Some t \<Rightarrow> isl_tab_is_redundant ops t (n_eq + k))
     then (case ineq_status_loop ops n_eq tab_i tab_j (Suc k) rs of
             None \<Rightarrow> None
           | Some rest \<Rightarrow> Some (STATUS_REDUNDANT # rest))
     else
       let s = status_in ops r tab_j in
       if s = STATUS_ERROR then None
       else if s = STATUS_SEPARATE then Some (s # replicate (length rs) STATUS_UNSET)
       else (case ineq_status_loop ops n_eq tab_i tab_j (Suc k) rs of
               None \<Rightarrow> None
             | Some rest \<Rightarrow> Some (s # rest)))"

definition ineq_status_in ::
  "('tab, 'x) isl_ops_scheme \<Rightarrow> isl_basic_map \<Rightarrow> 'tab option \<Rightarrow> 'tab \<Rightarrow> status list option" where
  "ineq_status_in ops bmap_i tab_i tab_j =
     ineq_status_loop ops (length (bm_eq bmap_i)) tab_i tab_j 0 (bm_ineq bmap_i)"

text \<open>\<open>any\<close>, \<open>count\<close> and \<open>all\<close> over the first \<open>len\<close> entries of a status array.\<close>

definition any_status :: "status list \<Rightarrow> nat \<Rightarrow> status \<Rightarrow> bool" where
  "any_status con len st = (st \<in> set (take len con))"

definition count_status :: "status list \<Rightarrow> nat \<Rightarrow> status \<Rightarrow> nat" where
  "count_status con len st = length (filter (\<lambda>s. s = st) (take len con))"

definition all_status :: "status list \<Rightarrow> nat \<Rightarrow> status \<Rightarrow> bool" where
  "all_status con len st = list_all (\<lambda>s. s = STATUS_REDUNDANT \<or> s = st) (take len con)"

text \<open>The first index \<open>k < len\<close> with \<open>con[k] = st\<close>, or \<open>len\<close> when there is none.\<close>

definition first_status :: "status list \<Rightarrow> nat \<Rightarrow> status \<Rightarrow> nat" where
  "first_status con len st = length (takeWhile (\<lambda>s. s \<noteq> st) (take len con))"

section \<open>Coalescing: dropping, exchanging and fusing\<close>

text \<open>
  \<open>drop\<close>: the last entry moves into position \<open>i\<close> and the arrays shrink by one.
\<close>

definition drop_map :: "'tab cstate \<Rightarrow> nat \<Rightarrow> 'tab cstate" where
  "drop_map st i =
    (let p = fst st; tabs = snd st; n = length p in
     if i \<noteq> n - 1
     then (butlast (p[i := p ! (n - 1)]), butlast (tabs[i := tabs ! (n - 1)]))
     else (butlast p, butlast tabs))"

definition exchange :: "'tab cstate \<Rightarrow> nat \<Rightarrow> nat \<Rightarrow> 'tab cstate" where
  "exchange st i j =
    (let p = fst st; tabs = snd st in
     (p[i := p ! j, j := p ! i], tabs[i := tabs ! j, j := tabs ! i]))"

text \<open>
  The rows \<open>fuse\<close> copies: an equality \<open>k\<close> is skipped when a status array is given and one of
  its two entries is not \<open>STATUS_VALID\<close>; an inequality is skipped when its status is not
  \<open>STATUS_VALID\<close>.
\<close>

definition fuse_eqs :: "status list option \<Rightarrow> row list \<Rightarrow> row list" where
  "fuse_eqs eq_i eqs =
    map (\<lambda>k. eqs ! k)
      (filter (\<lambda>k. case eq_i of
                     None \<Rightarrow> True
                   | Some e \<Rightarrow> \<not> (e ! (2 * k) \<noteq> STATUS_VALID \<or> e ! (2 * k + 1) \<noteq> STATUS_VALID))
         [0 ..< length eqs])"

definition fuse_ineqs :: "status list \<Rightarrow> row list \<Rightarrow> row list" where
  "fuse_ineqs ineq_i ineqs =
    map (\<lambda>k. ineqs ! k) (filter (\<lambda>k. \<not> (ineq_i ! k \<noteq> STATUS_VALID)) [0 ..< length ineqs])"

text \<open>
  The basic map \<open>fuse\<close> builds from the basic maps in positions \<open>i \<le> j\<close>: the copied rows, the
  divs of \<open>i\<close>, the rows of \<open>extra\<close>, then equality detection (if asked), Gauss, and the flags.
\<close>

definition fused_bmap ::
  "('tab, 'x) isl_ops_scheme \<Rightarrow> isl_basic_map \<Rightarrow> isl_basic_map \<Rightarrow>
   status list option \<Rightarrow> status list \<Rightarrow> status list option \<Rightarrow> status list \<Rightarrow>
   row list \<Rightarrow> bool \<Rightarrow> isl_basic_map" where
  "fused_bmap ops bi bj eq_i ineq_i eq_j ineq_j extra detect_equalities =
    (let fused0 = \<lparr> bm_dim = bm_dim bi, bm_div = bm_div bi,
                     bm_eq = fuse_eqs eq_i (bm_eq bi) @ fuse_eqs eq_j (bm_eq bj),
                     bm_ineq = fuse_ineqs ineq_i (bm_ineq bi) @ fuse_ineqs ineq_j (bm_ineq bj) @ extra,
                     bm_final = False, bm_rational = False,
                     bm_no_implicit = False, bm_no_redundant = False \<rparr>;
         fused1 = (if detect_equalities then isl_basic_map_detect_inequality_pairs ops fused0
                   else fused0);
         fused2 = isl_basic_map_gauss ops fused1;
         fused3 = fused2 \<lparr> bm_final := True \<rparr>
     in if bm_rational bi \<and> bm_rational bj then fused3 \<lparr> bm_rational := True \<rparr> else fused3)"

definition fuse_ordered ::
  "('tab, 'x) isl_ops_scheme \<Rightarrow> 'tab cstate \<Rightarrow> nat \<Rightarrow> nat \<Rightarrow>
   status list option \<Rightarrow> status list \<Rightarrow> status list option \<Rightarrow> status list \<Rightarrow>
   row list \<Rightarrow> bool \<Rightarrow> (bool \<times> 'tab cstate) option" where
  "fuse_ordered ops st i j eq_i ineq_i eq_j ineq_j extra detect_equalities =
    (let p = fst st; tabs = snd st;
         fused = fused_bmap ops (p ! i) (p ! j) eq_i ineq_i eq_j ineq_j extra detect_equalities
     in case isl_tab_from_basic_map ops fused of
          None \<Rightarrow> None
        | Some fused_tab \<Rightarrow>
            (case isl_tab_detect_redundant ops fused_tab of
               None \<Rightarrow> None
             | Some fused_tab' \<Rightarrow>
                 Some (True, drop_map (p[i := fused], tabs[i := fused_tab']) j)))"

text \<open>\<open>fuse\<close>: with \<open>j < i\<close> the call is repeated with the two basic maps swapped.\<close>

definition fuse ::
  "('tab, 'x) isl_ops_scheme \<Rightarrow> 'tab cstate \<Rightarrow> nat \<Rightarrow> nat \<Rightarrow>
   status list option \<Rightarrow> status list \<Rightarrow> status list option \<Rightarrow> status list \<Rightarrow>
   row list \<Rightarrow> bool \<Rightarrow> (bool \<times> 'tab cstate) option" where
  "fuse ops st i j eq_i ineq_i eq_j ineq_j extra detect_equalities =
    (if j < i then fuse_ordered ops st j i eq_j ineq_j eq_i ineq_i extra detect_equalities
     else fuse_ordered ops st i j eq_i ineq_i eq_j ineq_j extra detect_equalities)"

section \<open>Coalescing: the rules on cut and adjacent constraints\<close>

text \<open>
  The inner loop of \<open>check_facets\<close> runs to the end exactly when every cut inequality of \<open>j\<close>
  is valid for the selected facet.
\<close>

definition facet_cuts_valid ::
  "('tab, 'x) isl_ops_scheme \<Rightarrow> isl_basic_map \<Rightarrow> status list \<Rightarrow> 'tab \<Rightarrow> bool" where
  "facet_cuts_valid ops bj ineq_j t =
    list_all (\<lambda>l. ineq_j ! l \<noteq> STATUS_CUT \<or> status_in ops (bm_ineq bj ! l) t = STATUS_VALID)
      [0 ..< length (bm_ineq bj)]"

text \<open>
  The outer loop of \<open>check_facets\<close> over the indices \<open>ks\<close> still to visit. The result is
  \<open>True\<close> when the loop reached the end (\<open>k = n_ineq\<close>), with the tableau of \<open>i\<close> as left.
\<close>

fun check_facets_loop ::
  "('tab, 'x) isl_ops_scheme \<Rightarrow> isl_basic_map \<Rightarrow> isl_basic_map \<Rightarrow> status list \<Rightarrow> status list \<Rightarrow>
   'tab \<Rightarrow> 'tab \<Rightarrow> nat list \<Rightarrow> (bool \<times> 'tab) option" where
  "check_facets_loop ops bi bj ineq_i ineq_j snap2 t [] = Some (True, t)"
| "check_facets_loop ops bi bj ineq_i ineq_j snap2 t (k # ks) =
    (if ineq_i ! k \<noteq> STATUS_CUT then check_facets_loop ops bi bj ineq_i ineq_j snap2 t ks
     else
       (case isl_tab_select_facet ops t (length (bm_eq bi) + k) of
          None \<Rightarrow> None
        | Some t1 \<Rightarrow>
            let ok = facet_cuts_valid ops bj ineq_j t1 in
            (case isl_tab_rollback ops t1 snap2 of
               None \<Rightarrow> None
             | Some t2 \<Rightarrow>
                 if \<not> ok then Some (False, t2)
                 else check_facets_loop ops bi bj ineq_i ineq_j snap2 t2 ks)))"

definition check_facets ::
  "('tab, 'x) isl_ops_scheme \<Rightarrow> 'tab cstate \<Rightarrow> nat \<Rightarrow> nat \<Rightarrow> status list \<Rightarrow> status list \<Rightarrow>
   (bool \<times> 'tab cstate) option" where
  "check_facets ops st i j ineq_i ineq_j =
    (let p = fst st; tabs = snd st; snap = tabs ! i in
     case isl_tab_mark_rational ops (tabs ! i) of
       None \<Rightarrow> None
     | Some snap2 \<Rightarrow>
         (case check_facets_loop ops (p ! i) (p ! j) ineq_i ineq_j snap2 snap2
                 [0 ..< length (bm_ineq (p ! i))] of
            None \<Rightarrow> None
          | Some (finished, t) \<Rightarrow>
              if \<not> finished then
                (case isl_tab_rollback ops t snap of
                   None \<Rightarrow> None
                 | Some t' \<Rightarrow> Some (False, (p, tabs[i := t'])))
              else fuse ops (p, tabs[i := t]) i j None ineq_i None ineq_j [] False))"

text \<open>\<open>contains\<close>: does the basic map contain the set represented by the tableau?\<close>

definition contains ::
  "('tab, 'x) isl_ops_scheme \<Rightarrow> isl_basic_map \<Rightarrow> status list \<Rightarrow> 'tab \<Rightarrow> bool" where
  "contains ops bmap ineq_i tab =
    (list_all (\<lambda>e. status_in ops (isl_seq_neg e) tab = STATUS_VALID
                 \<and> status_in ops (isl_seq_neg (isl_seq_neg e)) tab = STATUS_VALID) (bm_eq bmap)
     \<and> list_all (\<lambda>k. ineq_i ! k = STATUS_REDUNDANT
                    \<or> status_in ops (bm_ineq bmap ! k) tab = STATUS_VALID)
         [0 ..< length (bm_ineq bmap)])"

text \<open>Adding to the tableau the inequalities of \<open>j\<close> with status valid, in order.\<close>

fun add_valid_ineqs ::
  "('tab, 'x) isl_ops_scheme \<Rightarrow> isl_basic_map \<Rightarrow> status list \<Rightarrow> 'tab \<Rightarrow> nat list \<Rightarrow> 'tab option" where
  "add_valid_ineqs ops bj ineq_j t [] = Some t"
| "add_valid_ineqs ops bj ineq_j t (k # ks) =
    (if ineq_j ! k \<noteq> STATUS_VALID then add_valid_ineqs ops bj ineq_j t ks
     else (case isl_tab_add_ineq ops t (bm_ineq bj ! k) of
             None \<Rightarrow> None
           | Some t' \<Rightarrow> add_valid_ineqs ops bj ineq_j t' ks))"

definition is_adj_ineq_extension ::
  "('tab, 'x) isl_ops_scheme \<Rightarrow> 'tab cstate \<Rightarrow> nat \<Rightarrow> nat \<Rightarrow>
   status list \<Rightarrow> status list \<Rightarrow> status list \<Rightarrow> status list \<Rightarrow> (bool \<times> 'tab cstate) option" where
  "is_adj_ineq_extension ops st i j eq_i ineq_i eq_j ineq_j =
    (let p = fst st; tabs = snd st; bi = p ! i; bj = p ! j;
         n_eq = length (bm_eq bi); n_ineq = length (bm_ineq bi) in
     case isl_tab_extend_cons ops (tabs ! i) (1 + length (bm_ineq bj)) of
       None \<Rightarrow> None
     | Some snap \<Rightarrow>
         let k = first_status ineq_i n_ineq STATUS_ADJ_INEQ in
         if k \<ge> n_ineq then None
         else
           (case isl_tab_unrestrict ops snap (n_eq + k) of
              None \<Rightarrow> None
            | Some t1 \<Rightarrow>
                (case isl_tab_add_ineq ops t1 (add_const (- 1) (isl_seq_neg (bm_ineq bi ! k))) of
                   None \<Rightarrow> None
                 | Some t2 \<Rightarrow>
                     (case add_valid_ineqs ops bj ineq_j t2 [0 ..< length (bm_ineq bj)] of
                        None \<Rightarrow> None
                      | Some t3 \<Rightarrow>
                          if contains ops bj ineq_j t3
                          then fuse ops (p, tabs[i := t3]) i j
                                 (Some eq_i) ineq_i (Some eq_j) ineq_j [] False
                          else (case isl_tab_rollback ops t3 snap of
                                  None \<Rightarrow> None
                                | Some t4 \<Rightarrow> Some (False, (p, tabs[i := t4])))))))"

definition check_adj_ineq ::
  "('tab, 'x) isl_ops_scheme \<Rightarrow> 'tab cstate \<Rightarrow> nat \<Rightarrow> nat \<Rightarrow>
   status list \<Rightarrow> status list \<Rightarrow> status list \<Rightarrow> status list \<Rightarrow> (bool \<times> 'tab cstate) option" where
  "check_adj_ineq ops st i j eq_i ineq_i eq_j ineq_j =
    (let p = fst st; bi = p ! i; bj = p ! j;
         count_i = count_status ineq_i (length (bm_ineq bi)) STATUS_ADJ_INEQ;
         count_j = count_status ineq_j (length (bm_ineq bj)) STATUS_ADJ_INEQ in
     if count_i \<noteq> 1 \<and> count_j \<noteq> 1 then Some (False, st)
     else
       let cut_i = (any_status eq_i (2 * length (bm_eq bi)) STATUS_CUT
                    \<or> any_status ineq_i (length (bm_ineq bi)) STATUS_CUT);
           cut_j = (any_status eq_j (2 * length (bm_eq bj)) STATUS_CUT
                    \<or> any_status ineq_j (length (bm_ineq bj)) STATUS_CUT) in
       if \<not> cut_i \<and> \<not> cut_j \<and> count_i = 1 \<and> count_j = 1
         then fuse ops st i j None ineq_i None ineq_j [] False
       else if count_i = 1 \<and> \<not> cut_i
         then is_adj_ineq_extension ops st i j eq_i ineq_i eq_j ineq_j
       else if count_j = 1 \<and> \<not> cut_j
         then is_adj_ineq_extension ops st j i eq_j ineq_j eq_i ineq_i
       else Some (False, st))"

text \<open>
  \<open>is_adj_eq_extension\<close>: relax inequality \<open>k\<close> of \<open>i\<close>; if the new facet lies in \<open>j\<close>, keep the
  relaxed \<open>i\<close> in the smaller of the two positions and drop \<open>j\<close>.
\<close>

definition is_adj_eq_extension ::
  "('tab, 'x) isl_ops_scheme \<Rightarrow> 'tab cstate \<Rightarrow> nat \<Rightarrow> nat \<Rightarrow> nat \<Rightarrow>
   status list \<Rightarrow> status list \<Rightarrow> status list \<Rightarrow> status list \<Rightarrow> (bool \<times> 'tab cstate) option" where
  "is_adj_eq_extension ops st i j k eq_i ineq_i eq_j ineq_j =
    (let p = fst st; tabs = snd st; bi = p ! i; n_eq = length (bm_eq bi); snap = tabs ! i in
     if isl_tab_is_equality ops (tabs ! i) (n_eq + k) then Some (False, st)
     else
       (case isl_tab_relax ops (tabs ! i) (n_eq + k) of
          None \<Rightarrow> None
        | Some snap2 \<Rightarrow>
            (case isl_tab_select_facet ops snap2 (n_eq + k) of
               None \<Rightarrow> None
             | Some t1 \<Rightarrow>
                 if contains ops (p ! j) ineq_j t1 then
                   (case isl_tab_rollback ops t1 snap2 of
                      None \<Rightarrow> None
                    | Some t2 \<Rightarrow>
                        let bi' = bi \<lparr> bm_ineq := (bm_ineq bi)[k := add_const 1 (bm_ineq bi ! k)],
                                      bm_final := True \<rparr>;
                            st' = (p[i := bi'], tabs[i := t2]) in
                        if j < i then Some (True, drop_map (exchange st' i j) i)
                        else Some (True, drop_map st' j))
                 else
                   (case isl_tab_rollback ops t1 snap of
                      None \<Rightarrow> None
                    | Some t2 \<Rightarrow> Some (False, (p, tabs[i := t2]))))))"

section \<open>Coalescing: wrapping\<close>

text \<open>
  \<open>struct isl_wraps\<close>: \<open>w_mat\<close> holds the first \<open>n_row\<close> rows of the matrix, so that
  \<open>mat->n_row = 0\<close> is \<open>w_mat = []\<close>. \<open>w_max\<close> is only set when \<open>w_bound\<close> is.
\<close>

record isl_wraps =
  w_bound :: bool
  w_mat :: "row list"
  w_max :: int

definition wraps_update_max ::
  "isl_wraps \<Rightarrow> isl_basic_map \<Rightarrow> status list \<Rightarrow> status list \<Rightarrow> isl_wraps" where
  "wraps_update_max wraps bmap eq ineq =
    (let m1 = foldl (\<lambda>m k.
                 if eq ! (2 * k) = STATUS_VALID \<and> eq ! (2 * k + 1) = STATUS_VALID then m
                 else (let max_k = isl_seq_abs_max (tl (bm_eq bmap ! k)) in
                       if isl_int_abs_gt max_k m then max_k else m))
               (w_max wraps) [0 ..< length (bm_eq bmap)];
         m2 = foldl (\<lambda>m k.
                 if ineq ! k = STATUS_VALID \<or> ineq ! k = STATUS_REDUNDANT then m
                 else (let max_k = isl_seq_abs_max (tl (bm_ineq bmap ! k)) in
                       if isl_int_abs_gt max_k m then max_k else m))
               m1 [0 ..< length (bm_ineq bmap)]
     in wraps \<lparr> w_max := m2 \<rparr>)"

definition wraps_init ::
  "('tab, 'x) isl_ops_scheme \<Rightarrow> row list \<Rightarrow> isl_basic_map list \<Rightarrow> nat \<Rightarrow> nat \<Rightarrow>
   status list \<Rightarrow> status list \<Rightarrow> status list \<Rightarrow> status list \<Rightarrow> isl_wraps" where
  "wraps_init ops mat p i j eq_i ineq_i eq_j ineq_j =
    (let wraps = \<lparr> w_bound = False, w_mat = mat, w_max = 0 \<rparr> in
     if \<not> coalesce_bounded_wrapping ops then wraps
     else wraps_update_max
            (wraps_update_max (wraps \<lparr> w_bound := True, w_max := 0 \<rparr>) (p ! i) eq_i ineq_i)
            (p ! j) eq_j ineq_j)"

text \<open>\<open>allow_wrap\<close>, on the row just written: columns \<open>1 \<dots> n_col - 1\<close> are \<open>tl r\<close>.\<close>

definition allow_wrap :: "isl_wraps \<Rightarrow> row \<Rightarrow> bool" where
  "allow_wrap wraps r =
    (if \<not> w_bound wraps then True
     else list_all (\<lambda>c. \<not> isl_int_abs_gt c (w_max wraps)) (tl r))"

datatype wrap_result = Wrap_error | Wrap_unbounded | Wrap_rows "row list"

text \<open>The first loop of \<open>add_wraps\<close>, over the inequalities \<open>ls\<close> still to visit.\<close>

fun add_wraps_ineqs ::
  "('tab, 'x) isl_ops_scheme \<Rightarrow> isl_wraps \<Rightarrow> isl_basic_map \<Rightarrow> 'tab \<Rightarrow> row \<Rightarrow>
   isl_basic_map list \<Rightarrow> row list \<Rightarrow> nat list \<Rightarrow> wrap_result" where
  "add_wraps_ineqs ops wraps bmap tab bound sset mat [] = Wrap_rows mat"
| "add_wraps_ineqs ops wraps bmap tab bound sset mat (l # ls) =
    (if isl_seq_is_neg bound (bm_ineq bmap ! l) then add_wraps_ineqs ops wraps bmap tab bound sset mat ls
     else if isl_seq_eq bound (bm_ineq bmap ! l) then add_wraps_ineqs ops wraps bmap tab bound sset mat ls
     else if isl_tab_is_redundant ops tab (length (bm_eq bmap) + l)
       then add_wraps_ineqs ops wraps bmap tab bound sset mat ls
     else
       (case isl_set_wrap_facet ops sset bound (bm_ineq bmap ! l) of
          None \<Rightarrow> Wrap_error
        | Some r \<Rightarrow>
            if isl_seq_eq r bound then Wrap_unbounded
            else if \<not> allow_wrap wraps r then Wrap_unbounded
            else add_wraps_ineqs ops wraps bmap tab bound sset (mat @ [r]) ls))"

text \<open>The second loop of \<open>add_wraps\<close>, over the equalities: two wrapped rows each.\<close>

fun add_wraps_eqs ::
  "('tab, 'x) isl_ops_scheme \<Rightarrow> isl_wraps \<Rightarrow> isl_basic_map \<Rightarrow> row \<Rightarrow>
   isl_basic_map list \<Rightarrow> row list \<Rightarrow> nat list \<Rightarrow> wrap_result" where
  "add_wraps_eqs ops wraps bmap bound sset mat [] = Wrap_rows mat"
| "add_wraps_eqs ops wraps bmap bound sset mat (l # ls) =
    (if isl_seq_is_neg bound (bm_eq bmap ! l) then add_wraps_eqs ops wraps bmap bound sset mat ls
     else if isl_seq_eq bound (bm_eq bmap ! l) then add_wraps_eqs ops wraps bmap bound sset mat ls
     else
       (case isl_set_wrap_facet ops sset bound (isl_seq_neg (bm_eq bmap ! l)) of
          None \<Rightarrow> Wrap_error
        | Some r1 \<Rightarrow>
            if isl_seq_eq r1 bound then Wrap_unbounded
            else if \<not> allow_wrap wraps r1 then Wrap_unbounded
            else
              (case isl_set_wrap_facet ops sset bound (bm_eq bmap ! l) of
                 None \<Rightarrow> Wrap_error
               | Some r2 \<Rightarrow>
                   if isl_seq_eq r2 bound then Wrap_unbounded
                   else if \<not> allow_wrap wraps r2 then Wrap_unbounded
                   else add_wraps_eqs ops wraps bmap bound sset (mat @ [r1, r2]) ls)))"

text \<open>
  \<open>add_wraps\<close>: \<open>None\<close> is the return value \<open>-1\<close>; the label \<open>unbounded\<close> resets the row count
  to zero.
\<close>

definition add_wraps ::
  "('tab, 'x) isl_ops_scheme \<Rightarrow> isl_wraps \<Rightarrow> isl_basic_map \<Rightarrow> 'tab \<Rightarrow> row \<Rightarrow>
   isl_basic_map list \<Rightarrow> isl_wraps option" where
  "add_wraps ops wraps bmap tab bound sset =
    (case add_wraps_ineqs ops wraps bmap tab bound sset (w_mat wraps)
            [0 ..< length (bm_ineq bmap)] of
       Wrap_error \<Rightarrow> None
     | Wrap_unbounded \<Rightarrow> Some (wraps \<lparr> w_mat := [] \<rparr>)
     | Wrap_rows mat1 \<Rightarrow>
         (case add_wraps_eqs ops wraps bmap bound sset mat1 [0 ..< length (bm_eq bmap)] of
            Wrap_error \<Rightarrow> None
          | Wrap_unbounded \<Rightarrow> Some (wraps \<lparr> w_mat := [] \<rparr>)
          | Wrap_rows mat2 \<Rightarrow> Some (wraps \<lparr> w_mat := mat2 \<rparr>)))"

text \<open>\<open>check_wraps\<close>: the rows from \<open>first\<close> on must all be redundant for the tableau.\<close>

fun check_wraps_loop :: "('tab, 'x) isl_ops_scheme \<Rightarrow> 'tab \<Rightarrow> row list \<Rightarrow> bool option" where
  "check_wraps_loop ops tab [] = Some True"
| "check_wraps_loop ops tab (r # rs) =
    (case isl_tab_ineq_type ops tab r of
       isl_ineq_error \<Rightarrow> None
     | isl_ineq_redundant \<Rightarrow> check_wraps_loop ops tab rs
     | _ \<Rightarrow> Some False)"

definition check_wraps ::
  "('tab, 'x) isl_ops_scheme \<Rightarrow> row list \<Rightarrow> nat \<Rightarrow> 'tab \<Rightarrow> row list option" where
  "check_wraps ops mat first tab =
    (case check_wraps_loop ops tab (drop first mat) of
       None \<Rightarrow> None
     | Some ok \<Rightarrow> Some (if ok then mat else []))"

definition set_from_updated_bmap ::
  "('tab, 'x) isl_ops_scheme \<Rightarrow> isl_basic_map \<Rightarrow> 'tab \<Rightarrow> isl_basic_map list option" where
  "set_from_updated_bmap ops bmap tab =
    (case isl_basic_map_update_from_tab ops (isl_basic_map_underlying_set ops bmap) tab of
       None \<Rightarrow> None
     | Some bset \<Rightarrow> Some [bset])"

definition can_wrap_in_facet ::
  "('tab, 'x) isl_ops_scheme \<Rightarrow> 'tab cstate \<Rightarrow> nat \<Rightarrow> nat \<Rightarrow> nat \<Rightarrow>
   status list \<Rightarrow> status list \<Rightarrow> status list \<Rightarrow> status list \<Rightarrow> (bool \<times> 'tab cstate) option" where
  "can_wrap_in_facet ops st i j k eq_i ineq_i eq_j ineq_j =
    (let p = fst st; tabs = snd st; bi = p ! i; bj = p ! j in
     case set_from_updated_bmap ops bi (tabs ! i) of
       None \<Rightarrow> None
     | Some set_i \<Rightarrow>
     (case set_from_updated_bmap ops bj (tabs ! j) of
       None \<Rightarrow> None
     | Some set_j \<Rightarrow>
       let bound = add_const 1 (bm_ineq bi ! k);
           wraps = wraps_init ops [bound] p i j eq_i ineq_i eq_j ineq_j in
       (case add_wraps ops wraps bj (tabs ! j) bound set_i of
          None \<Rightarrow> None
        | Some wraps1 \<Rightarrow>
            if w_mat wraps1 = [] then Some (False, st)
            else
              let snap = tabs ! i in
              (case isl_tab_select_facet ops (tabs ! i) (length (bm_eq bi) + k) of
                 None \<Rightarrow> None
               | Some t1 \<Rightarrow>
               (case isl_tab_detect_redundant ops t1 of
                 None \<Rightarrow> None
               | Some t2 \<Rightarrow>
                 let bound2 = isl_seq_neg (bm_ineq bi ! k); n = length (w_mat wraps1) in
                 (case add_wraps ops wraps1 bi t2 bound2 set_j of
                    None \<Rightarrow> None
                  | Some wraps2 \<Rightarrow>
                  (case isl_tab_rollback ops t2 snap of
                    None \<Rightarrow> None
                  | Some t3 \<Rightarrow>
                    (case check_wraps ops (w_mat wraps2) n t3 of
                       None \<Rightarrow> None
                     | Some mat \<Rightarrow>
                         if mat = [] then Some (False, (p, tabs[i := t3]))
                         else fuse ops (p, tabs[i := t3]) i j
                                (Some eq_i) ineq_i (Some eq_j) ineq_j mat False))))))))"

text \<open>
  The loop of \<open>wrap_in_facets\<close> over the cut constraints still to visit. The result is \<open>True\<close>
  when the loop reached \<open>k = n\<close>.
\<close>

fun wrap_in_facets_loop ::
  "('tab, 'x) isl_ops_scheme \<Rightarrow> isl_basic_map \<Rightarrow> isl_basic_map \<Rightarrow> 'tab \<Rightarrow> isl_basic_map list \<Rightarrow>
   isl_wraps \<Rightarrow> 'tab \<Rightarrow> nat list \<Rightarrow> (bool \<times> isl_wraps \<times> 'tab) option" where
  "wrap_in_facets_loop ops bi bj snap sset wraps t [] = Some (True, wraps, t)"
| "wrap_in_facets_loop ops bi bj snap sset wraps t (c # cs) =
    (let w = length (w_mat wraps);
         row = add_const 1 (bm_ineq bi ! c);
         wraps1 = wraps \<lparr> w_mat := w_mat wraps @ [row] \<rparr> in
     case isl_tab_add_eq ops t row of
       None \<Rightarrow> None
     | Some t1 \<Rightarrow>
     (case isl_tab_detect_redundant ops t1 of
       None \<Rightarrow> None
     | Some t2 \<Rightarrow>
       (case (if isl_tab_empty ops t2
              then Some (wraps1 \<lparr> w_mat := (w_mat wraps1)[w := add_const (- 1) (w_mat wraps1 ! w)] \<rparr>)
              else add_wraps ops wraps1 bj t2 (w_mat wraps1 ! w) sset) of
          None \<Rightarrow> None
        | Some wraps2 \<Rightarrow>
          (case isl_tab_rollback ops t2 snap of
             None \<Rightarrow> None
           | Some t3 \<Rightarrow>
               if w_mat wraps2 = [] then Some (False, wraps2, t3)
               else wrap_in_facets_loop ops bi bj snap sset wraps2 t3 cs))))"

definition wrap_in_facets ::
  "('tab, 'x) isl_ops_scheme \<Rightarrow> 'tab cstate \<Rightarrow> nat \<Rightarrow> nat \<Rightarrow> nat list \<Rightarrow>
   status list \<Rightarrow> status list \<Rightarrow> status list \<Rightarrow> status list \<Rightarrow> (bool \<times> 'tab cstate) option" where
  "wrap_in_facets ops st i j cuts eq_i ineq_i eq_j ineq_j =
    (let p = fst st; tabs = snd st; bi = p ! i; bj = p ! j in
     case isl_tab_extend_cons ops (tabs ! j) 1 of
       None \<Rightarrow> None
     | Some snap \<Rightarrow>
     (case set_from_updated_bmap ops bi (tabs ! i) of
       None \<Rightarrow> None
     | Some set_i \<Rightarrow>
     (case set_from_updated_bmap ops bj snap of
       None \<Rightarrow> None
     | Some set_j \<Rightarrow>
       let wraps = wraps_init ops [] p i j eq_i ineq_i eq_j ineq_j in
       (case wrap_in_facets_loop ops bi bj snap (set_i @ set_j) wraps snap cuts of
          None \<Rightarrow> None
        | Some (finished, wraps', t) \<Rightarrow>
            if finished
            then fuse ops (p, tabs[j := t]) i j (Some eq_i) ineq_i (Some eq_j) ineq_j
                   (w_mat wraps') False
            else Some (False, (p, tabs[j := t]))))))"

text \<open>
  The loop of \<open>can_wrap_in_set\<close> that collects in \<open>cuts\<close> the cut inequalities of \<open>i\<close> whose
  relaxation by one is redundant for \<open>j\<close>; it stops at the first that is not.
\<close>

fun collect_cuts ::
  "('tab, 'x) isl_ops_scheme \<Rightarrow> isl_basic_map \<Rightarrow> status list \<Rightarrow> 'tab \<Rightarrow> nat \<Rightarrow>
   nat list \<Rightarrow> nat list \<Rightarrow> nat list option" where
  "collect_cuts ops bi ineq_i tab_j n cuts [] = Some cuts"
| "collect_cuts ops bi ineq_i tab_j n cuts (k # ks) =
    (if \<not> length cuts < n then Some cuts
     else if ineq_i ! k \<noteq> STATUS_CUT then collect_cuts ops bi ineq_i tab_j n cuts ks
     else
       (case isl_tab_ineq_type ops tab_j (add_const 1 (bm_ineq bi ! k)) of
          isl_ineq_error \<Rightarrow> None
        | isl_ineq_redundant \<Rightarrow> collect_cuts ops bi ineq_i tab_j n (cuts @ [k]) ks
        | _ \<Rightarrow> Some cuts))"

definition can_wrap_in_set ::
  "('tab, 'x) isl_ops_scheme \<Rightarrow> 'tab cstate \<Rightarrow> nat \<Rightarrow> nat \<Rightarrow>
   status list \<Rightarrow> status list \<Rightarrow> status list \<Rightarrow> status list \<Rightarrow> (bool \<times> 'tab cstate) option" where
  "can_wrap_in_set ops st i j eq_i ineq_i eq_j ineq_j =
    (let p = fst st; tabs = snd st; bi = p ! i; bj = p ! j in
     if bm_rational bi \<or> bm_rational bj then Some (False, st)
     else
       let n = count_status ineq_i (length (bm_ineq bi)) STATUS_CUT in
       if n = 0 then Some (False, st)
       else
         (case collect_cuts ops bi ineq_i (tabs ! j) n [] [0 ..< length (bm_ineq bi)] of
            None \<Rightarrow> None
          | Some cuts \<Rightarrow>
              if length cuts = n
              then wrap_in_facets ops st i j cuts eq_i ineq_i eq_j ineq_j
              else Some (False, st)))"

definition check_wrap ::
  "('tab, 'x) isl_ops_scheme \<Rightarrow> 'tab cstate \<Rightarrow> nat \<Rightarrow> nat \<Rightarrow>
   status list \<Rightarrow> status list \<Rightarrow> status list \<Rightarrow> status list \<Rightarrow> (bool \<times> 'tab cstate) option" where
  "check_wrap ops st i j eq_i ineq_i eq_j ineq_j =
    (let p = fst st in
     case (if \<not> any_status eq_i (2 * length (bm_eq (p ! i))) STATUS_CUT
           then can_wrap_in_set ops st i j eq_i ineq_i eq_j ineq_j
           else Some (False, st)) of
       None \<Rightarrow> None
     | Some (changed, st') \<Rightarrow>
         if changed then Some (changed, st')
         else if \<not> any_status eq_j (2 * length (bm_eq (p ! j))) STATUS_CUT
           then can_wrap_in_set ops st' j i eq_j ineq_j eq_i ineq_i
         else Some (False, st'))"

section \<open>Coalescing: equalities adjacent to constraints of the other basic map\<close>

text \<open>
  \<open>check_adj_eq\<close> once \<open>i\<close> is the basic map with the inequality and \<open>j\<close> the one with the
  equality (the part of the function after the recursive call with the two swapped).
\<close>

definition check_adj_eq_ordered ::
  "('tab, 'x) isl_ops_scheme \<Rightarrow> 'tab cstate \<Rightarrow> nat \<Rightarrow> nat \<Rightarrow>
   status list \<Rightarrow> status list \<Rightarrow> status list \<Rightarrow> status list \<Rightarrow> (bool \<times> 'tab cstate) option" where
  "check_adj_eq_ordered ops st i j eq_i ineq_i eq_j ineq_j =
    (let p = fst st; bi = p ! i; bj = p ! j;
         n_ineq_i = length (bm_ineq bi); n_ineq_j = length (bm_ineq bj) in
     if any_status eq_i (2 * length (bm_eq bi)) STATUS_CUT then Some (False, st)
     else if any_status ineq_i n_ineq_i STATUS_CUT then Some (False, st)
     else if count_status ineq_i n_ineq_i STATUS_ADJ_EQ \<noteq> 1
             \<or> any_status ineq_j n_ineq_j STATUS_ADJ_EQ
             \<or> any_status ineq_i n_ineq_i STATUS_ADJ_INEQ
             \<or> any_status ineq_j n_ineq_j STATUS_ADJ_INEQ then Some (False, st)
     else
       let k = first_status ineq_i n_ineq_i STATUS_ADJ_EQ in
       (case is_adj_eq_extension ops st i j k eq_i ineq_i eq_j ineq_j of
          None \<Rightarrow> None
        | Some (changed, st') \<Rightarrow>
            if changed then Some (changed, st')
            else if count_status eq_j (2 * length (bm_eq bj)) STATUS_ADJ_INEQ \<noteq> 1
              then Some (False, st')
            else can_wrap_in_facet ops st' i j k eq_i ineq_i eq_j ineq_j))"

definition check_adj_eq ::
  "('tab, 'x) isl_ops_scheme \<Rightarrow> 'tab cstate \<Rightarrow> nat \<Rightarrow> nat \<Rightarrow>
   status list \<Rightarrow> status list \<Rightarrow> status list \<Rightarrow> status list \<Rightarrow> (bool \<times> 'tab cstate) option" where
  "check_adj_eq ops st i j eq_i ineq_i eq_j ineq_j =
    (let p = fst st in
     if any_status eq_i (2 * length (bm_eq (p ! i))) STATUS_ADJ_INEQ
        \<and> any_status eq_j (2 * length (bm_eq (p ! j))) STATUS_ADJ_INEQ then Some (False, st)
     else if any_status eq_i (2 * length (bm_eq (p ! i))) STATUS_ADJ_INEQ
       then check_adj_eq_ordered ops st j i eq_j ineq_j eq_i ineq_i
     else check_adj_eq_ordered ops st i j eq_i ineq_i eq_j ineq_j)"

definition check_eq_adj_eq ::
  "('tab, 'x) isl_ops_scheme \<Rightarrow> 'tab cstate \<Rightarrow> nat \<Rightarrow> nat \<Rightarrow>
   status list \<Rightarrow> status list \<Rightarrow> status list \<Rightarrow> status list \<Rightarrow> (bool \<times> 'tab cstate) option" where
  "check_eq_adj_eq ops st i j eq_i ineq_i eq_j ineq_j =
    (let p = fst st; tabs = snd st; bi = p ! i; bj = p ! j;
         detect_equalities = (count_status eq_i (2 * length (bm_eq bi)) STATUS_ADJ_EQ \<noteq> 1);
         k = first_status eq_i (2 * length (bm_eq bi)) STATUS_ADJ_EQ in
     case set_from_updated_bmap ops bi (tabs ! i) of
       None \<Rightarrow> None
     | Some set_i \<Rightarrow>
     (case set_from_updated_bmap ops bj (tabs ! j) of
       None \<Rightarrow> None
     | Some set_j \<Rightarrow>
       let bound = add_const 1 (if k mod 2 = 0 then isl_seq_neg (bm_eq bi ! (k div 2))
                                else bm_eq bi ! (k div 2));
           wraps = wraps_init ops [bound] p i j eq_i ineq_i eq_j ineq_j in
       (case add_wraps ops wraps bj (tabs ! j) bound set_i of
          None \<Rightarrow> None
        | Some wraps1 \<Rightarrow>
            if w_mat wraps1 = [] then Some (False, st)
            else
              let bound2 = isl_seq_neg (add_const (- 1) bound);
                  wraps2 = wraps1 \<lparr> w_mat := w_mat wraps1 @ [bound2] \<rparr> in
              (case add_wraps ops wraps2 bi (tabs ! i) bound2 set_j of
                 None \<Rightarrow> None
               | Some wraps3 \<Rightarrow>
                   if w_mat wraps3 = [] then Some (False, st)
                   else fuse ops st i j (Some eq_i) ineq_i (Some eq_j) ineq_j
                          (w_mat wraps3) detect_equalities))))"

section \<open>Coalescing: a pair of basic maps\<close>

text \<open>
  \<open>coalesce_local_pair\<close>. \<open>None\<close> is the result \<open>-1\<close>; otherwise the flag is \<open>changed\<close> and the
  state is that of \<open>map\<close> and \<open>tabs\<close> on return.
\<close>

definition coalesce_local_pair ::
  "('tab, 'x) isl_ops_scheme \<Rightarrow> 'tab cstate \<Rightarrow> nat \<Rightarrow> nat \<Rightarrow> (bool \<times> 'tab cstate) option" where
  "coalesce_local_pair ops st i j =
    (let p = fst st; tabs = snd st; bi = p ! i; bj = p ! j;
         n_eq_i = length (bm_eq bi); n_eq_j = length (bm_eq bj);
         n_ineq_i = length (bm_ineq bi); n_ineq_j = length (bm_ineq bj) in
     case eq_status_in ops bi (tabs ! j) of
       None \<Rightarrow> None
     | Some eq_i \<Rightarrow>
     if any_status eq_i (2 * n_eq_i) STATUS_ERROR then None
     else if any_status eq_i (2 * n_eq_i) STATUS_SEPARATE then Some (False, st)
     else
     (case eq_status_in ops bj (tabs ! i) of
       None \<Rightarrow> None
     | Some eq_j \<Rightarrow>
     if any_status eq_j (2 * n_eq_j) STATUS_ERROR then None
     else if any_status eq_j (2 * n_eq_j) STATUS_SEPARATE then Some (False, st)
     else
     (case ineq_status_in ops bi (Some (tabs ! i)) (tabs ! j) of
       None \<Rightarrow> None
     | Some ineq_i \<Rightarrow>
     if any_status ineq_i n_ineq_i STATUS_ERROR then None
     else if any_status ineq_i n_ineq_i STATUS_SEPARATE then Some (False, st)
     else
     (case ineq_status_in ops bj (Some (tabs ! j)) (tabs ! i) of
       None \<Rightarrow> None
     | Some ineq_j \<Rightarrow>
     if any_status ineq_j n_ineq_j STATUS_ERROR then None
     else if any_status ineq_j n_ineq_j STATUS_SEPARATE then Some (False, st)
     else if all_status eq_i (2 * n_eq_i) STATUS_VALID \<and> all_status ineq_i n_ineq_i STATUS_VALID
       then Some (True, drop_map st j)
     else if all_status eq_j (2 * n_eq_j) STATUS_VALID \<and> all_status ineq_j n_ineq_j STATUS_VALID
       then Some (True, drop_map st i)
     else if any_status eq_i (2 * n_eq_i) STATUS_ADJ_EQ
       then check_eq_adj_eq ops st i j eq_i ineq_i eq_j ineq_j
     else if any_status eq_j (2 * n_eq_j) STATUS_ADJ_EQ
       then check_eq_adj_eq ops st j i eq_j ineq_j eq_i ineq_i
     else if any_status eq_i (2 * n_eq_i) STATUS_ADJ_INEQ
             \<or> any_status eq_j (2 * n_eq_j) STATUS_ADJ_INEQ
       then check_adj_eq ops st i j eq_i ineq_i eq_j ineq_j
     else if any_status ineq_i n_ineq_i STATUS_ADJ_EQ
             \<or> any_status ineq_j n_ineq_j STATUS_ADJ_EQ
       then Some (False, st)
     else if any_status ineq_i n_ineq_i STATUS_ADJ_INEQ
             \<or> any_status ineq_j n_ineq_j STATUS_ADJ_INEQ
       then check_adj_ineq ops st i j eq_i ineq_i eq_j ineq_j
     else
       (case (if \<not> any_status eq_i (2 * n_eq_i) STATUS_CUT
                 \<and> \<not> any_status eq_j (2 * n_eq_j) STATUS_CUT
              then check_facets ops st i j ineq_i ineq_j
              else Some (False, st)) of
          None \<Rightarrow> None
        | Some (changed, st') \<Rightarrow>
            if \<not> changed then check_wrap ops st' i j eq_i ineq_i eq_j ineq_j
            else Some (changed, st'))))))"

text \<open>\<open>same_divs\<close>: \<open>None\<close> is \<open>-1\<close>.\<close>

definition same_divs ::
  "('tab, 'x) isl_ops_scheme \<Rightarrow> isl_basic_map \<Rightarrow> isl_basic_map \<Rightarrow> bool option" where
  "same_divs ops bmap1 bmap2 =
    (if length (bm_div bmap1) \<noteq> length (bm_div bmap2) then Some False
     else if length (bm_div bmap1) = 0 then Some True
     else
       (case isl_basic_map_divs_known ops bmap1 of
          None \<Rightarrow> None
        | Some known1 \<Rightarrow>
            if \<not> known1 then Some False
            else
              (case isl_basic_map_divs_known ops bmap2 of
                 None \<Rightarrow> None
               | Some known2 \<Rightarrow>
                   if \<not> known2 then Some False
                   else Some (list_all (\<lambda>k. isl_seq_eq (bm_div bmap1 ! k) (bm_div bmap2 ! k))
                                [0 ..< length (bm_div bmap1)]))))"

text \<open>
  \<open>coalesce_subset\<close>: the constraints of \<open>i\<close>, expanded to the divs of \<open>j\<close>, are classified
  against \<open>j\<close>; the final test reads the first \<open>2 * map->p[i]->n_eq\<close> and \<open>map->p[i]->n_ineq\<close>
  entries.
\<close>

definition coalesce_subset ::
  "('tab, 'x) isl_ops_scheme \<Rightarrow> 'tab cstate \<Rightarrow> nat \<Rightarrow> nat \<Rightarrow> row list \<Rightarrow> nat list \<Rightarrow>
   (bool \<times> 'tab cstate) option" where
  "coalesce_subset ops st i j divs exp =
    (let p = fst st; tabs = snd st in
     case isl_basic_set_expand_divs ops (p ! i) divs exp of
       None \<Rightarrow> None
     | Some bmap \<Rightarrow>
     (case eq_status_in ops bmap (tabs ! j) of
       None \<Rightarrow> None
     | Some eq_i \<Rightarrow>
     if any_status eq_i (2 * length (bm_eq bmap)) STATUS_ERROR then None
     else if any_status eq_i (2 * length (bm_eq bmap)) STATUS_SEPARATE then Some (False, st)
     else
     (case ineq_status_in ops bmap None (tabs ! j) of
       None \<Rightarrow> None
     | Some ineq_i \<Rightarrow>
     if any_status ineq_i (length (bm_ineq bmap)) STATUS_ERROR then None
     else if any_status ineq_i (length (bm_ineq bmap)) STATUS_SEPARATE then Some (False, st)
     else if all_status eq_i (2 * length (bm_eq (p ! i))) STATUS_VALID
             \<and> all_status ineq_i (length (bm_ineq (p ! i))) STATUS_VALID
       then Some (True, drop_map st j)
     else Some (False, st))))"

text \<open>
  \<open>check_coalesce_subset\<close> once \<open>i\<close> is the basic map with fewer divs (the part after the
  recursive call with the two swapped).
\<close>

definition check_coalesce_subset_ordered ::
  "('tab, 'x) isl_ops_scheme \<Rightarrow> 'tab cstate \<Rightarrow> nat \<Rightarrow> nat \<Rightarrow> (bool \<times> 'tab cstate) option" where
  "check_coalesce_subset_ordered ops st i j =
    (let p = fst st in
     case isl_basic_map_divs_known ops (p ! i) of
       None \<Rightarrow> None
     | Some known \<Rightarrow>
         if \<not> known then Some (False, st)
         else
           (case isl_merge_divs ops (bm_div (p ! i)) (bm_div (p ! j)) of
              None \<Rightarrow> None
            | Some (divs, exp1, exp2) \<Rightarrow>
                if length divs = length (bm_div (p ! j))
                then coalesce_subset ops st i j divs exp1
                else Some (False, st)))"

definition check_coalesce_subset ::
  "('tab, 'x) isl_ops_scheme \<Rightarrow> 'tab cstate \<Rightarrow> nat \<Rightarrow> nat \<Rightarrow> (bool \<times> 'tab cstate) option" where
  "check_coalesce_subset ops st i j =
    (let p = fst st in
     if length (bm_div (p ! i)) = length (bm_div (p ! j)) then Some (False, st)
     else if length (bm_div (p ! j)) < length (bm_div (p ! i))
       then check_coalesce_subset_ordered ops st j i
     else check_coalesce_subset_ordered ops st i j)"

definition coalesce_pair ::
  "('tab, 'x) isl_ops_scheme \<Rightarrow> 'tab cstate \<Rightarrow> nat \<Rightarrow> nat \<Rightarrow> (bool \<times> 'tab cstate) option" where
  "coalesce_pair ops st i j =
    (case same_divs ops (fst st ! i) (fst st ! j) of
       None \<Rightarrow> None
     | Some same \<Rightarrow>
         if same then coalesce_local_pair ops st i j
         else check_coalesce_subset ops st i j)"

section \<open>Coalescing: the driver\<close>

text \<open>
  How a call that returns relates the lengths of \<open>map->p\<close> and \<open>tabs\<close> before and after: one less
  when it reports a change, the same otherwise.
\<close>

definition shrinks :: "'tab cstate \<Rightarrow> (bool \<times> 'tab cstate) option \<Rightarrow> bool" where
  "shrinks st r =
    (case r of
       None \<Rightarrow> True
     | Some x \<Rightarrow>
         length (fst (snd x)) = (if fst x then length (fst st) - 1 else length (fst st))
       \<and> length (snd (snd x)) = (if fst x then length (snd st) - 1 else length (snd st)))"

lemma shrinks_None [simp]: "shrinks st None"
  by (simp add: shrinks_def)

lemma shrinks_Some [simp]:
  "shrinks st (Some x) =
    (length (fst (snd x)) = (if fst x then length (fst st) - 1 else length (fst st))
     \<and> length (snd (snd x)) = (if fst x then length (snd st) - 1 else length (snd st)))"
  by (simp add: shrinks_def)

lemma shrinks_same [simp]: "shrinks st (Some (False, st))"
  by simp

lemma length_drop_map [simp]:
  "length (fst (drop_map st i)) = length (fst st) - 1"
  "length (snd (drop_map st i)) = length (snd st) - 1"
  by (simp_all add: drop_map_def Let_def)

lemma shrinks_drop: "shrinks st (Some (True, drop_map st i))"
  by simp

lemma shrinks_trans:
  "shrinks st (Some (False, st1)) \<Longrightarrow> shrinks st1 r \<Longrightarrow> shrinks st r"
  by (cases r) auto

lemma shrinks_cong_len:
  "length (fst st1) = length (fst st) \<Longrightarrow> length (snd st1) = length (snd st) \<Longrightarrow> shrinks st1 r \<Longrightarrow> shrinks st r"
  by (cases r) auto

lemma shrinks_fuse_ordered:
  "shrinks st (fuse_ordered ops st i j eq_i ineq_i eq_j ineq_j extra d)"
  by (simp add: fuse_ordered_def Let_def split: option.splits)

lemma shrinks_fuse: "shrinks st (fuse ops st i j eq_i ineq_i eq_j ineq_j extra d)"
  by (simp add: fuse_def shrinks_fuse_ordered)

lemma shrinks_fuse_upd:
  "shrinks (p, tabs) (fuse ops (p, tabs[k := t]) i j eq_i ineq_i eq_j ineq_j extra d)"
  by (rule shrinks_cong_len [OF _ _ shrinks_fuse]) simp_all

lemma shrinks_check_facets: "shrinks st (check_facets ops st i j ineq_i ineq_j)"
  by (cases st) (auto simp: check_facets_def Let_def shrinks_fuse_upd split: option.splits)

lemma shrinks_is_adj_ineq_extension:
  "shrinks st (is_adj_ineq_extension ops st i j eq_i ineq_i eq_j ineq_j)"
  by (cases st) (auto simp: is_adj_ineq_extension_def Let_def shrinks_fuse_upd split: option.splits)

lemma shrinks_check_adj_ineq:
  "shrinks st (check_adj_ineq ops st i j eq_i ineq_i eq_j ineq_j)"
  by (simp add: check_adj_ineq_def Let_def shrinks_fuse shrinks_is_adj_ineq_extension)

lemma length_exchange [simp]:
  "length (fst (exchange st i j)) = length (fst st)"
  "length (snd (exchange st i j)) = length (snd st)"
  by (simp_all add: exchange_def Let_def)

lemma shrinks_is_adj_eq_extension:
  "shrinks st (is_adj_eq_extension ops st i j k eq_i ineq_i eq_j ineq_j)"
  by (cases st) (auto simp: is_adj_eq_extension_def Let_def split: option.splits)

lemma shrinks_can_wrap_in_facet:
  "shrinks st (can_wrap_in_facet ops st i j k eq_i ineq_i eq_j ineq_j)"
  by (cases st) (auto simp: can_wrap_in_facet_def Let_def shrinks_fuse_upd split: option.splits)

lemma shrinks_wrap_in_facets:
  "shrinks st (wrap_in_facets ops st i j cuts eq_i ineq_i eq_j ineq_j)"
  by (cases st) (auto simp: wrap_in_facets_def Let_def shrinks_fuse_upd split: option.splits)

lemma shrinks_can_wrap_in_set:
  "shrinks st (can_wrap_in_set ops st i j eq_i ineq_i eq_j ineq_j)"
  by (simp add: can_wrap_in_set_def Let_def shrinks_wrap_in_facets split: option.splits)

lemma shrinks_check_wrap:
  "shrinks st (check_wrap ops st i j eq_i ineq_i eq_j ineq_j)"
proof (cases "\<not> any_status eq_i (2 * length (bm_eq (fst st ! i))) STATUS_CUT")
  case False
  then show ?thesis
    by (simp add: check_wrap_def Let_def shrinks_can_wrap_in_set)
next
  case True
  have first: "shrinks st (can_wrap_in_set ops st i j eq_i ineq_i eq_j ineq_j)"
    by (rule shrinks_can_wrap_in_set)
  show ?thesis
  proof (cases "can_wrap_in_set ops st i j eq_i ineq_i eq_j ineq_j")
    case None
    with True show ?thesis by (simp add: check_wrap_def Let_def)
  next
    case (Some r)
    obtain changed st' where r: "r = (changed, st')" by (cases r)
    show ?thesis
    proof (cases changed)
      case True
      with first Some r \<open>\<not> any_status eq_i (2 * length (bm_eq (fst st ! i))) STATUS_CUT\<close>
      show ?thesis by (simp add: check_wrap_def Let_def)
    next
      case False
      with first Some r have same: "shrinks st (Some (False, st'))" by simp
      have "shrinks st' (can_wrap_in_set ops st' j i eq_j ineq_j eq_i ineq_i)"
        by (rule shrinks_can_wrap_in_set)
      with same have "shrinks st (can_wrap_in_set ops st' j i eq_j ineq_j eq_i ineq_i)"
        by (rule shrinks_trans)
      with same False Some r \<open>\<not> any_status eq_i (2 * length (bm_eq (fst st ! i))) STATUS_CUT\<close>
      show ?thesis by (simp add: check_wrap_def Let_def)
    qed
  qed
qed

lemma shrinks_bind:
  assumes "shrinks st r"
    and "\<And>st'. r = Some (False, st') \<Longrightarrow> shrinks st' (f st')"
  shows "shrinks st (case r of None \<Rightarrow> None
                     | Some (changed, st') \<Rightarrow> if changed then Some (changed, st') else f st')"
proof (cases r)
  case None
  then show ?thesis by simp
next
  case (Some x)
  obtain changed st' where x: "x = (changed, st')" by (cases x)
  show ?thesis
  proof (cases changed)
    case True
    with assms(1) Some x show ?thesis by simp
  next
    case False
    with assms(1) Some x have "shrinks st (Some (False, st'))" by simp
    moreover from assms(2) Some x False have "shrinks st' (f st')" by simp
    ultimately have "shrinks st (f st')" by (rule shrinks_trans)
    with Some x False show ?thesis by simp
  qed
qed

lemma shrinks_check_adj_eq_ordered:
  "shrinks st (check_adj_eq_ordered ops st i j eq_i ineq_i eq_j ineq_j)"
proof -
  let ?k = "first_status ineq_i (length (bm_ineq (fst st ! i))) STATUS_ADJ_EQ"
  have "shrinks st
     (case is_adj_eq_extension ops st i j ?k eq_i ineq_i eq_j ineq_j of
        None \<Rightarrow> None
      | Some (changed, st') \<Rightarrow>
          if changed then Some (changed, st')
          else (if count_status eq_j (2 * length (bm_eq (fst st ! j))) STATUS_ADJ_INEQ \<noteq> 1
                then Some (False, st')
                else can_wrap_in_facet ops st' i j ?k eq_i ineq_i eq_j ineq_j))"
    by (rule shrinks_bind) (simp_all add: shrinks_is_adj_eq_extension shrinks_can_wrap_in_facet)
  then show ?thesis
    by (simp add: check_adj_eq_ordered_def Let_def)
qed

lemma shrinks_check_adj_eq:
  "shrinks st (check_adj_eq ops st i j eq_i ineq_i eq_j ineq_j)"
  by (simp add: check_adj_eq_def Let_def shrinks_check_adj_eq_ordered)

lemma shrinks_check_eq_adj_eq:
  "shrinks st (check_eq_adj_eq ops st i j eq_i ineq_i eq_j ineq_j)"
  by (simp add: check_eq_adj_eq_def Let_def shrinks_fuse split: option.splits)

lemma shrinks_facets_then_wrap:
  "shrinks st
     (case (if c then check_facets ops st i j ineq_i ineq_j else Some (False, st)) of
        None \<Rightarrow> None
      | Some (changed, st') \<Rightarrow>
          if \<not> changed then check_wrap ops st' i j eq_i ineq_i eq_j ineq_j
          else Some (changed, st'))"
proof -
  have "shrinks st
     (case (if c then check_facets ops st i j ineq_i ineq_j else Some (False, st)) of
        None \<Rightarrow> None
      | Some (changed, st') \<Rightarrow>
          if changed then Some (changed, st')
          else check_wrap ops st' i j eq_i ineq_i eq_j ineq_j)"
    by (rule shrinks_bind) (simp_all add: shrinks_check_facets shrinks_check_wrap)
  moreover have "\<And>(b :: bool) (x :: (bool \<times> 'a cstate) option) y.
      (if \<not> b then x else y) = (if b then y else x)"
    by simp
  ultimately show ?thesis
    by (simp only:)
qed

lemma shrinks_coalesce_local_pair: "shrinks st (coalesce_local_pair ops st i j)"
  unfolding coalesce_local_pair_def Let_def
  by (simp add: shrinks_check_eq_adj_eq shrinks_check_adj_eq shrinks_check_adj_ineq
        shrinks_facets_then_wrap split: option.splits)

lemma shrinks_coalesce_subset: "shrinks st (coalesce_subset ops st i j divs exp)"
  by (simp add: coalesce_subset_def Let_def split: option.splits)

lemma shrinks_check_coalesce_subset: "shrinks st (check_coalesce_subset ops st i j)"
  by (simp add: check_coalesce_subset_def check_coalesce_subset_ordered_def Let_def
        shrinks_coalesce_subset split: option.splits)

lemma shrinks_coalesce_pair: "shrinks st (coalesce_pair ops st i j)"
  by (simp add: coalesce_pair_def shrinks_coalesce_local_pair shrinks_check_coalesce_subset
        split: option.splits)

text \<open>
  The double loop of \<open>coalesce\<close>. The label \<open>restart\<close> stands just before the inner loop, so a
  change restarts the inner loop at \<open>j = i + 1\<close> with the same \<open>i\<close>. The recursion is
  well-founded because a change shortens the map and no call lengthens it.
\<close>

function (domintros) coalesce_inner ::
  "('tab, 'x) isl_ops_scheme \<Rightarrow> 'tab cstate \<Rightarrow> nat \<Rightarrow> nat \<Rightarrow> 'tab cstate option" where
  "coalesce_inner ops st i j =
    (if j < length (fst st) then
       (case coalesce_pair ops st i j of
          None \<Rightarrow> None
        | Some (changed, st') \<Rightarrow>
            if changed then coalesce_inner ops st' i (i + 1)
            else coalesce_inner ops st' i (j + 1))
     else Some st)"
  by pat_completeness auto
termination
proof (relation "measures [\<lambda>(ops, st, i, j). length (fst st), \<lambda>(ops, st, i, j). length (fst st) - j]")
  show "wf (measures [\<lambda>(ops, st, i, j). length (fst st), \<lambda>(ops, st, i, j). length (fst st) - j])"
    by simp
next
  fix ops :: "('tab, 'x) isl_ops_scheme" and st :: "'tab cstate" and i j x2 x y
  assume "j < length (fst st)" "coalesce_pair ops st i j = Some x2" "(x, y) = x2" "x"
  moreover have "shrinks st (coalesce_pair ops st i j)" by (rule shrinks_coalesce_pair)
  ultimately show "((ops, y, i, i + 1), ops, st, i, j)
       \<in> measures [\<lambda>(ops, st, i, j). length (fst st), \<lambda>(ops, st, i, j). length (fst st) - j]"
    by auto
next
  fix ops :: "('tab, 'x) isl_ops_scheme" and st :: "'tab cstate" and i j x2 x y
  assume "j < length (fst st)" "coalesce_pair ops st i j = Some x2" "(x, y) = x2" "\<not> x"
  moreover have "shrinks st (coalesce_pair ops st i j)" by (rule shrinks_coalesce_pair)
  ultimately show "((ops, y, i, j + 1), ops, st, i, j)
       \<in> measures [\<lambda>(ops, st, i, j). length (fst st), \<lambda>(ops, st, i, j). length (fst st) - j]"
    by auto
qed


text \<open>The outer loop, for \<open>i\<close> from \<open>map->n - 2\<close> down to \<open>0\<close>; the argument is \<open>i + 1\<close>.\<close>

fun coalesce_outer ::
  "('tab, 'x) isl_ops_scheme \<Rightarrow> 'tab cstate \<Rightarrow> nat \<Rightarrow> 'tab cstate option" where
  "coalesce_outer ops st 0 = Some st"
| "coalesce_outer ops st (Suc i) =
    (case coalesce_inner ops st i (i + 1) of
       None \<Rightarrow> None
     | Some st' \<Rightarrow> coalesce_outer ops st' i)"

definition coalesce :: "('tab, 'x) isl_ops_scheme \<Rightarrow> 'tab cstate \<Rightarrow> 'tab cstate option" where
  "coalesce ops st = coalesce_outer ops st (length (fst st) - 1)"

text \<open>
  \<open>isl_map_coalesce\<close>: the tableaux are built, the basic maps with an empty tableau dropped
  (from the last to the first), the pairs coalesced, and every remaining basic map updated
  from its tableau.
\<close>

fun init_tabs ::
  "('tab, 'x) isl_ops_scheme \<Rightarrow> isl_basic_map list \<Rightarrow> 'tab cstate option" where
  "init_tabs ops [] = Some ([], [])"
| "init_tabs ops (bmap # rest) =
    (case isl_tab_from_basic_map ops bmap of
       None \<Rightarrow> None
     | Some t0 \<Rightarrow>
     (case (if \<not> bm_no_implicit bmap then isl_tab_detect_implicit_equalities ops t0 else Some t0) of
       None \<Rightarrow> None
     | Some t1 \<Rightarrow>
     (case isl_tab_make_equalities_explicit ops t1 bmap of
       None \<Rightarrow> None
     | Some (bmap', t2) \<Rightarrow>
     (case (if \<not> bm_no_redundant bmap' then isl_tab_detect_redundant ops t2 else Some t2) of
       None \<Rightarrow> None
     | Some t3 \<Rightarrow>
     (case init_tabs ops rest of
       None \<Rightarrow> None
     | Some (p, tabs) \<Rightarrow> Some (bmap' # p, t3 # tabs))))))"

fun drop_empty :: "('tab, 'x) isl_ops_scheme \<Rightarrow> 'tab cstate \<Rightarrow> nat \<Rightarrow> 'tab cstate" where
  "drop_empty ops st 0 = st"
| "drop_empty ops st (Suc i) =
    drop_empty ops (if isl_tab_empty ops (snd st ! i) then drop_map st i else st) i"

fun finish_bmaps ::
  "('tab, 'x) isl_ops_scheme \<Rightarrow> isl_basic_map list \<Rightarrow> 'tab list \<Rightarrow> isl_basic_map list option" where
  "finish_bmaps ops (bmap # p) (t # tabs) =
    (case isl_basic_map_update_from_tab ops bmap t of
       None \<Rightarrow> None
     | Some b1 \<Rightarrow>
     (case isl_basic_map_finalize ops (isl_basic_map_gauss ops b1) of
       None \<Rightarrow> None
     | Some b2 \<Rightarrow>
     (case finish_bmaps ops p tabs of
       None \<Rightarrow> None
     | Some rest \<Rightarrow> Some (b2 \<lparr> bm_no_implicit := True, bm_no_redundant := True \<rparr> # rest))))"
| "finish_bmaps ops p tabs = Some []"

definition isl_map_coalesce ::
  "('tab, 'x) isl_ops_scheme \<Rightarrow> isl_basic_map list \<Rightarrow> isl_basic_map list option" where
  "isl_map_coalesce ops m0 =
    (case isl_map_remove_empty_parts ops m0 of
       None \<Rightarrow> None
     | Some m1 \<Rightarrow>
         if length m1 \<le> 1 then Some m1
         else
           (case isl_map_sort_divs ops m1 of
              None \<Rightarrow> None
            | Some m2 \<Rightarrow>
            (case init_tabs ops m2 of
              None \<Rightarrow> None
            | Some st \<Rightarrow>
            (case coalesce ops (drop_empty ops st (length (fst st))) of
              None \<Rightarrow> None
            | Some st' \<Rightarrow> finish_bmaps ops (fst st') (snd st')))))"

section \<open>Scheduler: matrices, nodes, edges and the dependence graph\<close>

text \<open>
  Modelled from the spec: the matrix and vector containers are outside the two source files.
  A matrix is its number of columns and its rows; a row added by \<open>isl_mat_add_rows\<close> is
  zero here (every caller overwrites all of its entries).
\<close>

record isl_mat =
  m_n_col :: nat
  m_rows :: "row list"

definition isl_mat_alloc :: "nat \<Rightarrow> nat \<Rightarrow> isl_mat" where
  "isl_mat_alloc n_row n_col = \<lparr> m_n_col = n_col, m_rows = replicate n_row (replicate n_col 0) \<rparr>"

definition isl_mat_rows :: "isl_mat \<Rightarrow> int" where
  "isl_mat_rows mat = int (length (m_rows mat))"

definition isl_mat_cols :: "isl_mat \<Rightarrow> int" where
  "isl_mat_cols mat = int (m_n_col mat)"

definition isl_mat_add_zero_rows :: "isl_mat \<Rightarrow> int \<Rightarrow> isl_mat" where
  "isl_mat_add_zero_rows mat n =
     mat \<lparr> m_rows := m_rows mat @ replicate (nat n) (replicate (m_n_col mat) 0) \<rparr>"

definition isl_mat_add_rows :: "isl_mat \<Rightarrow> int \<Rightarrow> isl_mat" where
  "isl_mat_add_rows mat n = isl_mat_add_zero_rows mat n"

definition isl_mat_drop_rows :: "isl_mat \<Rightarrow> int \<Rightarrow> int \<Rightarrow> isl_mat" where
  "isl_mat_drop_rows mat row n =
     mat \<lparr> m_rows := take (nat row) (m_rows mat) @ drop (nat row + nat n) (m_rows mat) \<rparr>"

definition isl_mat_set_element :: "isl_mat \<Rightarrow> int \<Rightarrow> int \<Rightarrow> int \<Rightarrow> isl_mat" where
  "isl_mat_set_element mat row col v =
     mat \<lparr> m_rows := (m_rows mat)[nat row := (m_rows mat ! nat row)[nat col := v]] \<rparr>"

definition isl_mat_get_element :: "isl_mat \<Rightarrow> int \<Rightarrow> int \<Rightarrow> int" where
  "isl_mat_get_element mat row col = m_rows mat ! nat row ! nat col"

definition isl_mat_vec_product :: "isl_mat \<Rightarrow> int list \<Rightarrow> int list" where
  "isl_mat_vec_product mat vec = map (\<lambda>r. sum_list (map (\<lambda>(a, b). a * b) (zip r vec))) (m_rows mat)"

definition isl_mat_transpose :: "isl_mat \<Rightarrow> isl_mat" where
  "isl_mat_transpose mat =
     \<lparr> m_n_col = length (m_rows mat),
       m_rows = map (\<lambda>c. map (\<lambda>r. r ! c) (m_rows mat)) [0 ..< m_n_col mat] \<rparr>"

definition isl_mat_sub_alloc :: "isl_mat \<Rightarrow> nat \<Rightarrow> nat \<Rightarrow> nat \<Rightarrow> nat \<Rightarrow> isl_mat" where
  "isl_mat_sub_alloc mat first_row n_row first_col n_col =
     \<lparr> m_n_col = n_col,
       m_rows = map (\<lambda>r. take n_col (drop first_col r)) (take n_row (drop first_row (m_rows mat))) \<rparr>"

definition isl_mat_scale_down_row :: "isl_mat \<Rightarrow> int \<Rightarrow> int \<Rightarrow> isl_mat" where
  "isl_mat_scale_down_row mat row g =
     mat \<lparr> m_rows := (m_rows mat)[nat row := map (\<lambda>x. x div g) (m_rows mat ! nat row)] \<rparr>"

definition isl_seq_gcd :: "int list \<Rightarrow> int" where
  "isl_seq_gcd xs = foldl gcd 0 xs"

definition isl_seq_first_non_zero :: "int list \<Rightarrow> int" where
  "isl_seq_first_non_zero xs =
     (if list_all (\<lambda>x. x = 0) xs then - 1 else int (length (takeWhile (\<lambda>x. x = 0) xs)))"

text \<open>
  A space, as far as the scheduler reads it: an identity (two nodes live in the same space
  when the identities agree), the number of parameters and the number of set dimensions.
\<close>

record isl_space =
  sp_id :: nat
  sp_nparam :: nat
  sp_nvar :: nat

text \<open>
  \<open>struct isl_sched_node\<close>. The cache \<open>sched_map\<close> is left out: it is recomputed from \<open>sched\<close>
  whenever it is \<open>NULL\<close>, and is reset to \<open>NULL\<close> by every change of \<open>sched\<close>.
\<close>

record isl_sched_node =
  nd_dim :: isl_space
  nd_sched :: isl_mat
  nd_rank :: int
  nd_cmap :: isl_mat
  nd_cinv :: isl_mat
  nd_start :: nat
  nd_nvar :: nat
  nd_nparam :: nat
  nd_scc :: int
  nd_band :: "int list"
  nd_band_id :: "int list"
  nd_coincident :: "int list"

datatype isl_edge_type =
    isl_edge_validity
  | isl_edge_coincidence
  | isl_edge_proximity
  | isl_edge_condition
  | isl_edge_conditional_validity

definition isl_edge_types :: "isl_edge_type list" where
  "isl_edge_types = [isl_edge_validity, isl_edge_coincidence, isl_edge_proximity,
                     isl_edge_condition, isl_edge_conditional_validity]"

text \<open>
  \<open>struct isl_sched_edge\<close>. The relations are objects of the collaborators, of the type
  parameter \<open>'o\<close>; source and sink are indices into the node array of the graph.
\<close>

record 'o isl_sched_edge =
  ed_map :: 'o
  ed_tagged_condition :: "'o option"
  ed_tagged_validity :: "'o option"
  ed_src :: nat
  ed_dst :: nat
  ed_validity :: bool
  ed_coincidence :: bool
  ed_proximity :: bool
  ed_local :: bool
  ed_condition :: bool
  ed_conditional_validity :: bool
  ed_start :: int
  ed_end :: int

text \<open>The LP problem \<open>graph->lp\<close>: a basic set over \<open>lp_total\<close> variables.\<close>

record isl_lp =
  lp_total :: nat
  lp_rational :: bool
  lp_eq :: "row list"
  lp_ineq :: "row list"

text \<open>
  \<open>struct isl_sched_graph\<close>. \<open>n\<close> and \<open>n_edge\<close> are the lengths of \<open>g_node\<close> and \<open>g_edge\<close>. An
  edge table maps a type with a source and a sink to the index of an edge. The caches of
  duals and the capacities \<open>max_edge\<close> are left out; \<open>region\<close> is computed where it is used.
\<close>

record 'o isl_sched_graph =
  g_node :: "isl_sched_node list"
  g_maxvar :: int
  g_max_row :: int
  g_n_row :: int
  g_sorted :: "nat list"
  g_n_band :: int
  g_n_total_row :: int
  g_band_start :: int
  g_root :: bool
  g_edge :: "'o isl_sched_edge list"
  g_edge_table :: "((isl_edge_type \<times> nat \<times> nat) \<times> nat) list"
  g_lp :: isl_lp
  g_src_scc :: int
  g_dst_scc :: int
  g_scc :: int

text \<open>The options the scheduler reads from the context.\<close>

record sched_options =
  schedule_parametric :: bool
  schedule_max_coefficient :: int
  schedule_max_constant_term :: int
  schedule_outer_coincidence :: bool
  schedule_maximize_band_depth :: bool
  schedule_algorithm_feautrier :: bool
  schedule_fuse_min :: bool
  schedule_separate_components :: bool
  schedule_split_scaled :: bool

text \<open>
  Errors. \<open>Internal\<close> and \<open>Unknown\<close> carry the message of \<open>isl_die\<close>; \<open>Failure\<close> is a
  collaborator that returned \<open>NULL\<close> or a negative value; \<open>No_result\<close> is an operation used
  where its result is not defined (\<open>isl_int_divexact\<close> on a number that the divisor does not
  divide); \<open>Out_of_fuel\<close> belongs to the model
  only: the recursion of the driver is bounded by a counter.
\<close>

datatype sched_error = Internal string | Unknown string | Failure | No_result | Out_of_fuel

text \<open>
  The set of the coefficients \<open>(c_0, c_n, c_x)\<close> of the constraints that are valid on a
  dependence relation (or on its differences), as \<open>intra_coefficients\<close> and
  \<open>inter_coefficients\<close> return it: the constraints of a basic set over these coefficients,
  a row being the constant term followed by the coefficients of \<open>c_0\<close>, of the \<open>c_n\<close> and of
  the \<open>c_x\<close>; \<open>cf_dim\<close> is the number of the \<open>c_0\<close> and \<open>c_n\<close>, which the callers read with
  \<open>isl_space_dim(dim, isl_dim_set)\<close>.
\<close>

record isl_coef =
  cf_dim :: nat
  cf_eq :: "row list"
  cf_ineq :: "row list"

text \<open>
  The collaborators of the scheduler: Tarjan's algorithm (the array \<open>order\<close>), the Hermite
  normal form, the two ILP solvers (the first also reports the conflicting constraints it
  meets to \<open>check_conflict\<close>), the constraints that the dual of a dependence relation
  contributes to the LP of a band, the duals themselves for the carry LP (of basic map \<open>j\<close>
  of a relation), and the operations on relations.
\<close>

record 'o sched_ops =
  isl_tarjan_order :: "nat \<Rightarrow> (nat \<Rightarrow> nat \<Rightarrow> bool option) \<Rightarrow> int list option"
  isl_mat_left_hermite :: "isl_mat \<Rightarrow> (isl_mat \<times> isl_mat \<times> isl_mat) option"
  isl_mat_initial_non_zero_cols :: "isl_mat \<Rightarrow> int"
  isl_tab_basic_set_non_trivial_lexmin ::
    "isl_lp \<Rightarrow> (nat \<times> nat) list \<Rightarrow> (int list option \<times> int list)"
  isl_tab_basic_set_non_neg_lexmin :: "isl_lp \<Rightarrow> int list option"
  validity_constraints :: "'o isl_sched_graph \<Rightarrow> nat \<Rightarrow> (row list \<times> row list) option"
  proximity_constraints ::
    "'o isl_sched_graph \<Rightarrow> nat \<Rightarrow> int \<Rightarrow> bool \<Rightarrow> (row list \<times> row list) option"
  intra_coefficients :: "'o \<Rightarrow> nat \<Rightarrow> isl_coef option"
  inter_coefficients :: "'o \<Rightarrow> nat \<Rightarrow> isl_coef option"
  isl_map_n :: "'o \<Rightarrow> nat"
  isl_map_plain_is_empty :: "'o \<Rightarrow> bool option"
  isl_map_is_empty :: "'o \<Rightarrow> bool option"
  isl_map_is_subset :: "'o \<Rightarrow> 'o \<Rightarrow> bool option"
  isl_map_intersect :: "'o \<Rightarrow> 'o \<Rightarrow> 'o option"
  isl_map_apply_domain :: "'o \<Rightarrow> 'o \<Rightarrow> 'o"
  isl_map_apply_range :: "'o \<Rightarrow> 'o \<Rightarrow> 'o"
  isl_map_reverse :: "'o \<Rightarrow> 'o"
  isl_map_order_gt :: "'o \<Rightarrow> 'o"
  isl_map_identity_like :: "'o \<Rightarrow> 'o"
  isl_map_wrap :: "'o \<Rightarrow> 'o"
  isl_map_from_sched :: "isl_sched_node \<Rightarrow> 'o"
  isl_map_from_sched_row :: "isl_sched_node \<Rightarrow> int \<Rightarrow> 'o"
  isl_map_from_union_map :: "'o \<Rightarrow> 'o"
  isl_union_map_zip :: "'o \<Rightarrow> 'o"
  isl_union_map_domain :: "'o \<Rightarrow> 'o"
  isl_union_map_range :: "'o \<Rightarrow> 'o"
  isl_union_map_intersect_domain :: "'o \<Rightarrow> 'o \<Rightarrow> 'o option"
  isl_union_map_intersect_range :: "'o \<Rightarrow> 'o \<Rightarrow> 'o option"
  isl_union_map_is_empty :: "'o \<Rightarrow> bool option"
  isl_union_set_empty :: 'o
  isl_union_set_union :: "'o \<Rightarrow> 'o \<Rightarrow> 'o"
  isl_union_set_coalesce :: "'o \<Rightarrow> 'o"
  isl_union_set_unwrap :: "'o \<Rightarrow> 'o"
  isl_union_set_from_set :: "'o \<Rightarrow> 'o"

section \<open>Scheduler: edge tables and connected components\<close>

text \<open>
  \<open>graph_find_edge\<close>: the index of the edge that \<open>edge_table[type]\<close> holds for a source and a
  sink, if any. \<open>graph_edge_table_add\<close> replaces the entry of the key, as
  \<open>isl_hash_table_find\<close> with \<open>reserve\<close> set followed by \<open>entry->data = edge\<close> does.
\<close>

definition graph_find_edge ::
  "'o isl_sched_graph \<Rightarrow> isl_edge_type \<Rightarrow> nat \<Rightarrow> nat \<Rightarrow> nat option" where
  "graph_find_edge graph type src dst = map_of (g_edge_table graph) (type, src, dst)"

definition graph_edge_table_add ::
  "'o isl_sched_graph \<Rightarrow> isl_edge_type \<Rightarrow> nat \<Rightarrow> 'o isl_sched_graph" where
  "graph_edge_table_add graph type e =
     (let key = (type, ed_src (g_edge graph ! e), ed_dst (g_edge graph ! e)) in
      graph \<lparr> g_edge_table := (key, e) # filter (\<lambda>(k, v). k \<noteq> key) (g_edge_table graph) \<rparr>)"

definition graph_has_edge ::
  "'o sched_ops \<Rightarrow> 'o isl_sched_graph \<Rightarrow> isl_edge_type \<Rightarrow> nat \<Rightarrow> nat \<Rightarrow> bool option" where
  "graph_has_edge ops graph type src dst =
     (case graph_find_edge graph type src dst of
        None \<Rightarrow> Some False
      | Some e \<Rightarrow>
          (case isl_map_plain_is_empty ops (ed_map (g_edge graph ! e)) of
             None \<Rightarrow> None
           | Some emp \<Rightarrow> Some (\<not> emp)))"

text \<open>\<open>graph_remove_edge\<close>: the edge leaves every table that refers to it.\<close>

definition graph_remove_edge :: "'o isl_sched_graph \<Rightarrow> nat \<Rightarrow> 'o isl_sched_graph" where
  "graph_remove_edge graph e =
     graph \<lparr> g_edge_table :=
       filter (\<lambda>((t, s, d), v). \<not> (s = ed_src (g_edge graph ! e) \<and> d = ed_dst (g_edge graph ! e)
                                     \<and> v = e))
         (g_edge_table graph) \<rparr>"

fun graph_has_any_edge_from ::
  "'o sched_ops \<Rightarrow> 'o isl_sched_graph \<Rightarrow> isl_edge_type list \<Rightarrow> nat \<Rightarrow> nat \<Rightarrow> bool option" where
  "graph_has_any_edge_from ops graph [] src dst = Some False"
| "graph_has_any_edge_from ops graph (t # ts) src dst =
     (case graph_has_edge ops graph t src dst of
        None \<Rightarrow> None
      | Some r \<Rightarrow> if r then Some True else graph_has_any_edge_from ops graph ts src dst)"

definition graph_has_any_edge ::
  "'o sched_ops \<Rightarrow> 'o isl_sched_graph \<Rightarrow> nat \<Rightarrow> nat \<Rightarrow> bool option" where
  "graph_has_any_edge ops graph src dst = graph_has_any_edge_from ops graph isl_edge_types src dst"

definition graph_has_validity_edge ::
  "'o sched_ops \<Rightarrow> 'o isl_sched_graph \<Rightarrow> nat \<Rightarrow> nat \<Rightarrow> bool option" where
  "graph_has_validity_edge ops graph src dst =
     (case graph_has_edge ops graph isl_edge_validity src dst of
        None \<Rightarrow> None
      | Some r \<Rightarrow>
          if r then Some True
          else graph_has_edge ops graph isl_edge_conditional_validity src dst)"

definition node_follows_weak ::
  "'o sched_ops \<Rightarrow> 'o isl_sched_graph \<Rightarrow> nat \<Rightarrow> nat \<Rightarrow> bool option" where
  "node_follows_weak ops graph i j =
     (case graph_has_any_edge ops graph j i of
        None \<Rightarrow> None
      | Some f \<Rightarrow> if f then Some True else graph_has_any_edge ops graph i j)"

definition node_follows_strong ::
  "'o sched_ops \<Rightarrow> 'o isl_sched_graph \<Rightarrow> nat \<Rightarrow> nat \<Rightarrow> bool option" where
  "node_follows_strong ops graph i j = graph_has_validity_edge ops graph j i"

text \<open>
  The loop of \<open>detect_ccs\<close> over the array \<open>order\<close>, in which the components are separated by
  \<open>-1\<close>. \<open>outer\<close> tells whether the test \<open>while (n)\<close> is the next thing to run. Reading past the
  end of the array has no meaning in C and is \<open>None\<close> here.
\<close>

fun detect_ccs_loop ::
  "bool \<Rightarrow> int list \<Rightarrow> int \<Rightarrow> int \<Rightarrow> isl_sched_node list \<Rightarrow> (isl_sched_node list \<times> int) option"
where
  "detect_ccs_loop outer [] n scc nodes = (if outer \<and> n = 0 then Some (nodes, scc) else None)"
| "detect_ccs_loop outer (x # order) n scc nodes =
     (if outer \<and> n = 0 then Some (nodes, scc)
      else if x \<noteq> - 1 then
        detect_ccs_loop False order (n - 1) scc (nodes[nat x := (nodes ! nat x) \<lparr> nd_scc := scc \<rparr>])
      else detect_ccs_loop True order n (scc + 1) nodes)"

definition detect_ccs ::
  "'o sched_ops \<Rightarrow> 'o isl_sched_graph \<Rightarrow> bool \<Rightarrow> 'o isl_sched_graph option" where
  "detect_ccs ops graph weak =
     (case isl_tarjan_order ops (length (g_node graph))
             (if weak then node_follows_weak ops graph else node_follows_strong ops graph) of
        None \<Rightarrow> None
      | Some order \<Rightarrow>
          (case detect_ccs_loop True order (int (length (g_node graph))) 0 (g_node graph) of
             None \<Rightarrow> None
           | Some (nodes, scc) \<Rightarrow> Some (graph \<lparr> g_node := nodes, g_scc := scc \<rparr>)))"

definition detect_sccs :: "'o sched_ops \<Rightarrow> 'o isl_sched_graph \<Rightarrow> 'o isl_sched_graph option" where
  "detect_sccs ops graph = detect_ccs ops graph False"

definition detect_wccs :: "'o sched_ops \<Rightarrow> 'o isl_sched_graph \<Rightarrow> 'o isl_sched_graph option" where
  "detect_wccs ops graph = detect_ccs ops graph True"

text \<open>
  \<open>sort_sccs\<close>: the first \<open>n\<close> entries of \<open>graph->sorted\<close> ordered by the component of the
  nodes. Modelled from the
  spec: \<open>isl_sort\<close> is outside the two source files; it is a stable sort here.
\<close>

definition sort_sccs :: "'o isl_sched_graph \<Rightarrow> 'o isl_sched_graph" where
  "sort_sccs graph =
     (let n = length (g_node graph) in
      graph \<lparr> g_sorted := sort_key (\<lambda>i. nd_scc (g_node graph ! i)) (take n (g_sorted graph))
                              @ drop n (g_sorted graph) \<rparr>)"

section \<open>Scheduler: the LP problem of a band\<close>

text \<open>A loop over a list that stops at the first failure.\<close>

fun fold_opt :: "('a \<Rightarrow> 's \<Rightarrow> 's option) \<Rightarrow> 'a list \<Rightarrow> 's \<Rightarrow> 's option" where
  "fold_opt f [] s = Some s"
| "fold_opt f (x # xs) s = (case f x s of None \<Rightarrow> None | Some s' \<Rightarrow> fold_opt f xs s')"

fun fold_err :: "('a \<Rightarrow> 's \<Rightarrow> 'e + 's) \<Rightarrow> 'a list \<Rightarrow> 's \<Rightarrow> 'e + 's" where
  "fold_err f [] s = Inr s"
| "fold_err f (x # xs) s = (case f x s of Inl e \<Rightarrow> Inl e | Inr s' \<Rightarrow> fold_err f xs s')"

text \<open>
  A constraint over \<open>tot\<close> variables (\<open>total\<close> in the source): \<open>isl_seq_clr\<close> followed by the assignments of
  \<open>isl_int_set_si\<close>, in the order given.
\<close>

definition lp_row :: "nat \<Rightarrow> (nat \<times> int) list \<Rightarrow> row" where
  "lp_row tot entries = foldl (\<lambda>r (i, v). r[i := v]) (replicate (1 + tot) 0) entries"

definition lp_add :: "isl_lp \<Rightarrow> row list \<times> row list \<Rightarrow> isl_lp" where
  "lp_add lp rows = lp \<lparr> lp_eq := lp_eq lp @ fst rows, lp_ineq := lp_ineq lp @ snd rows \<rparr>"

definition node_update_cmap :: "'o sched_ops \<Rightarrow> isl_sched_node \<Rightarrow> isl_sched_node option" where
  "node_update_cmap ops node =
     (let n_row = length (m_rows (nd_sched node));
          H = isl_mat_sub_alloc (nd_sched node) 0 n_row (1 + nd_nparam node) (nd_nvar node) in
      case isl_mat_left_hermite ops H of
        None \<Rightarrow> None
      | Some (H', U, Q) \<Rightarrow>
          (let rank = isl_mat_initial_non_zero_cols ops H' in
           if rank < 0 then None
           else Some (node \<lparr> nd_cmap := isl_mat_transpose Q, nd_cinv := isl_mat_transpose U,
                             nd_rank := rank \<rparr>)))"

text \<open>
  The first loop of \<open>setup_lp\<close>: in the order of \<open>graph->sorted\<close>, every node gets its basis
  and the position of its variables.
\<close>

fun setup_lp_nodes ::
  "'o sched_ops \<Rightarrow> nat list \<Rightarrow> nat \<Rightarrow> isl_sched_node list \<Rightarrow> (isl_sched_node list \<times> nat) option"
where
  "setup_lp_nodes ops [] tot nodes = Some (nodes, tot)"
| "setup_lp_nodes ops (k # ks) tot nodes =
     (case node_update_cmap ops (nodes ! k) of
        None \<Rightarrow> None
      | Some node \<Rightarrow>
          setup_lp_nodes ops ks (tot + (1 + 2 * (nd_nparam node + nd_nvar node)))
            (nodes[k := node \<lparr> nd_start := tot \<rparr>]))"

definition add_bound_coefficient_constraints ::
  "sched_options \<Rightarrow> 'o isl_sched_graph \<Rightarrow> 'o isl_sched_graph" where
  "add_bound_coefficient_constraints opts graph =
     (let max_coefficient = schedule_max_coefficient opts in
      if max_coefficient = - 1 then graph
      else
        (let tot = lp_total (g_lp graph);
             rows = concat (map (\<lambda>node.
                      map (\<lambda>j. lp_row tot [(1 + nd_start node + 1 + j, - 1), (0, max_coefficient)])
                          [0 ..< 2 * nd_nparam node + 2 * nd_nvar node])
                    (g_node graph)) in
         graph \<lparr> g_lp := lp_add (g_lp graph) ([], rows) \<rparr>))"

definition edge_is_local :: "'o isl_sched_edge \<Rightarrow> bool \<Rightarrow> bool" where
  "edge_is_local edge use_coincidence = (ed_local edge \<or> (ed_coincidence edge \<and> use_coincidence))"

text \<open>
  \<open>add_intra_validity_constraints\<close> and \<open>add_inter_validity_constraints\<close>: the constraints
  come from the dual of the relation, a collaborator; the second one records in the edge
  where its inequalities sit.
\<close>

definition add_intra_validity_constraints ::
  "'o sched_ops \<Rightarrow> nat \<Rightarrow> 'o isl_sched_graph \<Rightarrow> 'o isl_sched_graph option" where
  "add_intra_validity_constraints ops e graph =
     (case validity_constraints ops graph e of
        None \<Rightarrow> None
      | Some rows \<Rightarrow> Some (graph \<lparr> g_lp := lp_add (g_lp graph) rows \<rparr>))"

definition add_inter_validity_constraints ::
  "'o sched_ops \<Rightarrow> nat \<Rightarrow> 'o isl_sched_graph \<Rightarrow> 'o isl_sched_graph option" where
  "add_inter_validity_constraints ops e graph =
     (case validity_constraints ops graph e of
        None \<Rightarrow> None
      | Some rows \<Rightarrow>
          (let lp = lp_add (g_lp graph) rows;
               edge = (g_edge graph ! e) \<lparr> ed_start := int (length (lp_ineq (g_lp graph))),
                                           ed_end := int (length (lp_ineq lp)) \<rparr> in
           Some (graph \<lparr> g_lp := lp, g_edge := (g_edge graph)[e := edge] \<rparr>)))"

definition add_all_validity_constraints ::
  "'o sched_ops \<Rightarrow> bool \<Rightarrow> 'o isl_sched_graph \<Rightarrow> 'o isl_sched_graph option" where
  "add_all_validity_constraints ops use_coincidence graph =
     (case fold_opt (\<lambda>i g.
              let edge = g_edge g ! i in
              if \<not> ed_validity edge \<and> \<not> edge_is_local edge use_coincidence then Some g
              else if ed_src edge \<noteq> ed_dst edge then Some g
              else add_intra_validity_constraints ops i g)
            [0 ..< length (g_edge graph)] graph of
        None \<Rightarrow> None
      | Some graph1 \<Rightarrow>
          fold_opt (\<lambda>i g.
              let edge = g_edge g ! i in
              if \<not> ed_validity edge \<and> \<not> edge_is_local edge use_coincidence then Some g
              else if ed_src edge = ed_dst edge then Some g
              else add_inter_validity_constraints ops i g)
            [0 ..< length (g_edge graph1)] graph1)"

definition add_proximity_constraints ::
  "'o sched_ops \<Rightarrow> nat \<Rightarrow> int \<Rightarrow> bool \<Rightarrow> 'o isl_sched_graph \<Rightarrow> 'o isl_sched_graph option" where
  "add_proximity_constraints ops e s local graph =
     (case proximity_constraints ops graph e s local of
        None \<Rightarrow> None
      | Some rows \<Rightarrow> Some (graph \<lparr> g_lp := lp_add (g_lp graph) rows \<rparr>))"

definition add_all_proximity_constraints ::
  "'o sched_ops \<Rightarrow> bool \<Rightarrow> 'o isl_sched_graph \<Rightarrow> 'o isl_sched_graph option" where
  "add_all_proximity_constraints ops use_coincidence graph =
     fold_opt (\<lambda>i g.
         let edge = g_edge g ! i;
             local = edge_is_local edge use_coincidence in
         if \<not> ed_proximity edge \<and> \<not> local then Some g
         else
           (case add_proximity_constraints ops i 1 local g of
              None \<Rightarrow> None
            | Some g1 \<Rightarrow>
                if ed_validity edge \<or> local then Some g1
                else add_proximity_constraints ops i (- 1) False g1))
       [0 ..< length (g_edge graph)] graph"

text \<open>
  \<open>setup_lp\<close>. The variables are the sum of the parts of the \<open>m_n\<close>, \<open>m_0\<close>, the sum of the
  parts of all \<open>c_n\<close>, the sum of the parts of all \<open>c_x\<close>, the parts of \<open>m_n\<close>, then for each
  node \<open>c_0\<close> and the parts of \<open>c_n\<close> and \<open>c_x\<close>. The counts of constraints only size the
  allocation and are left out.
\<close>

definition setup_lp ::
  "'o sched_ops \<Rightarrow> sched_options \<Rightarrow> bool \<Rightarrow> 'o isl_sched_graph \<Rightarrow> 'o isl_sched_graph option" where
  "setup_lp ops opts use_coincidence graph =
     (let max_constant_term = schedule_max_constant_term opts;
          parametric = schedule_parametric opts;
          nparam = sp_nparam (nd_dim (g_node graph ! 0));
          param_pos = 4 in
      case setup_lp_nodes ops (take (length (g_node graph)) (g_sorted graph))
             (param_pos + 2 * nparam) (g_node graph) of
        None \<Rightarrow> None
      | Some (nodes, tot) \<Rightarrow>
          (let eq1 = lp_row tot ((1, - 1) # map (\<lambda>i. (1 + param_pos + i, 1)) [0 ..< 2 * nparam]);
               eq2 = lp_row tot ((3, - 1) #
                       concat (map (\<lambda>node. map (\<lambda>j. (1 + nd_start node + 1 + j, 1))
                                              [0 ..< 2 * nd_nparam node]) nodes));
               eq3 = lp_row tot ((4, - 1) #
                       concat (map (\<lambda>node.
                                 map (\<lambda>j. (1 + nd_start node + 1 + 2 * nd_nparam node + j, 1))
                                     [0 ..< 2 * nd_nvar node]) nodes));
               ineqs = (if max_constant_term \<noteq> - 1
                        then map (\<lambda>node. lp_row tot [(1 + nd_start node, - 1),
                                                        (0, max_constant_term)]) nodes
                        else []);
               lp = \<lparr> lp_total = tot, lp_rational = False,
                      lp_eq = [eq1] @ (if parametric then [eq2] else []) @ [eq3],
                      lp_ineq = ineqs \<rparr>;
               graph1 = add_bound_coefficient_constraints opts
                          (graph \<lparr> g_node := nodes, g_lp := lp \<rparr>) in
           case add_all_validity_constraints ops use_coincidence graph1 of
             None \<Rightarrow> None
           | Some graph2 \<Rightarrow> add_all_proximity_constraints ops use_coincidence graph2))"

text \<open>
  \<open>check_conflict\<close>, called by the solver on every conflicting constraint it meets. The loop
  over the edges has no \<open>break\<close>: the last matching edge decides.
\<close>

definition check_conflict :: "int \<Rightarrow> 'o isl_sched_graph \<Rightarrow> 'o isl_sched_graph" where
  "check_conflict con0 graph =
     (if g_src_scc graph \<ge> 0 then graph
      else
        (let con = con0 - int (length (lp_eq (g_lp graph))) in
         if con \<ge> int (length (lp_ineq (g_lp graph))) then graph
         else
           foldl (\<lambda>g edge.
               if \<not> ed_validity edge then g
               else if ed_src edge = ed_dst edge then g
               else if nd_scc (g_node graph ! ed_src edge) = nd_scc (g_node graph ! ed_dst edge) then g
               else if ed_start edge > con then g
               else if ed_end edge \<le> con then g
               else g \<lparr> g_src_scc := nd_scc (g_node graph ! ed_src edge),
                        g_dst_scc := nd_scc (g_node graph ! ed_dst edge) \<rparr>)
             graph (g_edge graph)))"

definition needs_row :: "'o isl_sched_graph \<Rightarrow> isl_sched_node \<Rightarrow> bool" where
  "needs_row graph node = (int (nd_nvar node) - nd_rank node \<ge> g_maxvar graph - g_n_row graph)"

text \<open>
  \<open>solve_lp\<close>: a region of non-triviality for every node, then the solver, which is a
  collaborator. An empty vector is an infeasible problem; \<open>None\<close> is a failure.
\<close>

definition solve_lp ::
  "'o sched_ops \<Rightarrow> 'o isl_sched_graph \<Rightarrow> 'o isl_sched_graph \<times> int list option" where
  "solve_lp ops graph =
     (let region = map (\<lambda>node.
                     let skip = nat (nd_rank node) in
                     (nd_start node + 1 + 2 * (nd_nparam node + skip),
                      if needs_row graph node then 2 * (nd_nvar node - skip) else 0))
                   (g_node graph);
          res = isl_tab_basic_set_non_trivial_lexmin ops (g_lp graph) region in
      (foldl (\<lambda>g con. check_conflict con g) graph (snd res), fst res))"

section \<open>Scheduler: adding a row, updating the edges, closing a band\<close>

text \<open>
  The body of the loop of \<open>update_schedule\<close> for node \<open>i\<close>. The solution vector is changed in
  place by the subtractions, so it is threaded through the loop.
\<close>

definition update_schedule_node ::
  "int \<Rightarrow> int \<Rightarrow> bool \<Rightarrow> int \<Rightarrow> nat \<Rightarrow> int list \<times> isl_sched_node list
     \<Rightarrow> int list \<times> isl_sched_node list" where
  "update_schedule_node n_total_row n_band use_cmap coincident i st =
     (let sol = fst st;
          node = snd st ! i;
          pos = nd_start node;
          nparam = nd_nparam node;
          nvar = nd_nvar node;
          row = isl_mat_rows (nd_sched node);
          sched0 = isl_mat_set_element (isl_mat_add_rows (nd_sched node) 1) row 0 (sol ! (1 + pos));
          sol1 = foldl (\<lambda>s j. s[1 + pos + 1 + 2 * j + 1 :=
                                   s ! (1 + pos + 1 + 2 * j + 1) - s ! (1 + pos + 1 + 2 * j)])
                   sol [0 ..< nparam + nvar];
          sched1 = foldl (\<lambda>m j. isl_mat_set_element m row (1 + int j) (sol1 ! (1 + pos + 1 + 2 * j + 1)))
                     sched0 [0 ..< nparam];
          csol0 = map (\<lambda>j. sol1 ! (1 + pos + 1 + 2 * (nparam + j) + 1)) [0 ..< nvar];
          csol = (if use_cmap then isl_mat_vec_product (nd_cmap node) csol0 else csol0);
          sched2 = foldl (\<lambda>m j. isl_mat_set_element m row (1 + int nparam + int j) (csol ! j))
                     sched1 [0 ..< nvar] in
      (sol1, (snd st)[i := node \<lparr> nd_sched := sched2,
                                   nd_band := (nd_band node)[nat n_total_row := n_band],
                                   nd_coincident := (nd_coincident node)[nat n_total_row := coincident] \<rparr>]))"

definition update_schedule ::
  "'o isl_sched_graph \<Rightarrow> int list option \<Rightarrow> bool \<Rightarrow> int \<Rightarrow> sched_error + 'o isl_sched_graph" where
  "update_schedule graph sol use_cmap coincident =
     (case sol of
        None \<Rightarrow> Inl Failure
      | Some v \<Rightarrow>
          if v = [] then Inl (Internal ''no solution found'')
          else if g_n_total_row graph \<ge> g_max_row graph then Inl (Internal ''too many schedule rows'')
          else
            Inr (graph \<lparr> g_node := snd (foldl (\<lambda>st i. update_schedule_node (g_n_total_row graph)
                                                    (g_n_band graph) use_cmap coincident i st)
                                           (v, g_node graph) [0 ..< length (g_node graph)]),
                         g_n_row := g_n_row graph + 1,
                         g_n_total_row := g_n_total_row graph + 1 \<rparr>))"

definition extract_schedule_row :: "isl_sched_node \<Rightarrow> nat \<Rightarrow> row" where
  "extract_schedule_row node row =
     isl_mat_get_element (nd_sched node) (int row) 0 #
     map (\<lambda>j. isl_mat_get_element (nd_sched node) (int row) (1 + int j)) [0 ..< nd_nparam node] @
     map (\<lambda>j. isl_mat_get_element (nd_sched node) (int row) (1 + int (nd_nparam node) + int j))
       [0 ..< nd_nvar node]"

text \<open>
  \<open>node_extract_schedule_multi_aff\<close>: one affine expression for every row of \<open>node->sched\<close>;
  the multi-affine expression is the list of them.
\<close>

definition node_extract_schedule_multi_aff :: "isl_sched_node \<Rightarrow> row list" where
  "node_extract_schedule_multi_aff node =
     map (extract_schedule_row node) [0 ..< nat (isl_mat_rows (nd_sched node))]"

definition specializer :: "'o sched_ops \<Rightarrow> isl_sched_node \<Rightarrow> isl_sched_node \<Rightarrow> 'o" where
  "specializer ops src dst =
     isl_map_apply_range ops (isl_map_from_sched ops src)
       (isl_map_reverse ops (isl_map_from_sched ops dst))"

definition intersect_domains :: "'o sched_ops \<Rightarrow> 'o \<Rightarrow> 'o \<Rightarrow> 'o option" where
  "intersect_domains ops umap m =
     (case isl_union_map_intersect_domain ops (isl_union_map_zip ops umap)
             (isl_union_set_from_set ops (isl_map_wrap ops m)) of
        None \<Rightarrow> None
      | Some u \<Rightarrow> Some (isl_union_map_zip ops u))"

definition update_edge ::
  "'o sched_ops \<Rightarrow> nat \<Rightarrow> 'o isl_sched_graph \<Rightarrow> 'o isl_sched_graph option" where
  "update_edge ops e graph =
     (let edge = g_edge graph ! e;
          ident = specializer ops (g_node graph ! ed_src edge) (g_node graph ! ed_dst edge) in
      case isl_map_intersect ops (ed_map edge) ident of
        None \<Rightarrow> None
      | Some m \<Rightarrow>
          (case (case ed_tagged_condition edge of
                   None \<Rightarrow> Some None
                 | Some tc \<Rightarrow> (case intersect_domains ops tc ident of
                                None \<Rightarrow> None | Some tc' \<Rightarrow> Some (Some tc'))) of
             None \<Rightarrow> None
           | Some tagged_condition \<Rightarrow>
               (case (case ed_tagged_validity edge of
                        None \<Rightarrow> Some None
                      | Some tv \<Rightarrow> (case intersect_domains ops tv ident of
                                     None \<Rightarrow> None | Some tv' \<Rightarrow> Some (Some tv'))) of
                  None \<Rightarrow> None
                | Some tagged_validity \<Rightarrow>
                    (let graph1 = graph \<lparr> g_edge := (g_edge graph)[e :=
                                     edge \<lparr> ed_map := m, ed_tagged_condition := tagged_condition,
                                            ed_tagged_validity := tagged_validity \<rparr>] \<rparr> in
                     Some (if isl_map_plain_is_empty ops m \<noteq> Some False
                           then graph_remove_edge graph1 e else graph1)))))"

definition update_edges :: "'o sched_ops \<Rightarrow> 'o isl_sched_graph \<Rightarrow> 'o isl_sched_graph option" where
  "update_edges ops graph = fold_opt (update_edge ops) (rev [0 ..< length (g_edge graph)]) graph"

definition next_band :: "'o isl_sched_graph \<Rightarrow> 'o isl_sched_graph" where
  "next_band graph =
     graph \<lparr> g_band_start := g_n_total_row graph, g_n_band := g_n_band graph + 1 \<rparr>"

definition sort_statements_node :: "int \<Rightarrow> int \<Rightarrow> isl_sched_node \<Rightarrow> isl_sched_node" where
  "sort_statements_node n_total_row n_band node =
     (let row = isl_mat_rows (nd_sched node);
          cols = m_n_col (nd_sched node);
          sched0 = isl_mat_set_element (isl_mat_add_rows (nd_sched node) 1) row 0 (nd_scc node);
          sched1 = foldl (\<lambda>m j. isl_mat_set_element m row (int j) 0) sched0 [1 ..< cols] in
      node \<lparr> nd_sched := sched1, nd_band := (nd_band node)[nat n_total_row := n_band] \<rparr>)"

definition sort_statements ::
  "'o sched_ops \<Rightarrow> 'o isl_sched_graph \<Rightarrow> sched_error + 'o isl_sched_graph" where
  "sort_statements ops graph =
     (if length (g_node graph) \<le> 1 then Inr graph
      else
        (case update_edges ops graph of
           None \<Rightarrow> Inl Failure
         | Some graph1 \<Rightarrow>
             if length (g_edge graph1) = 0 then Inr graph1
             else
               (case detect_sccs ops graph1 of
                  None \<Rightarrow> Inl Failure
                | Some graph2 \<Rightarrow>
                    if g_n_total_row graph2 \<ge> g_max_row graph2
                    then Inl (Internal ''too many schedule rows'')
                    else
                      Inr (next_band
                             (graph2 \<lparr> g_node := map (sort_statements_node (g_n_total_row graph2)
                                                        (g_n_band graph2)) (g_node graph2),
                                      g_n_total_row := g_n_total_row graph2 + 1 \<rparr>)))))"

text \<open>
  The schedule that is returned: for every node the multi-affine expression of its rows and
  the description of its bands.
\<close>

record isl_schedule_node =
  sn_sched :: "row list"
  sn_n_band :: int
  sn_band_end :: "int list"
  sn_band_id :: "int list"
  sn_coincident :: "int list"

record isl_schedule =
  s_n_band :: int
  s_n_total_row :: int
  s_node :: "isl_schedule_node list"

text \<open>
  The loop of \<open>extract_schedule\<close> that finds the ends of the bands: \<open>k\<close> rows remain, \<open>r\<close> is
  the row and \<open>b\<close> the band. The result tells the row and the band at which the loop stopped.
\<close>

fun band_end_loop :: "nat \<Rightarrow> int list \<Rightarrow> nat \<Rightarrow> nat \<Rightarrow> int list \<Rightarrow> nat \<times> nat \<times> int list" where
  "band_end_loop 0 band r b band_end = (r, b, band_end)"
| "band_end_loop (Suc k) band r b band_end =
     (if band ! r = int b then band_end_loop k band (r + 1) b band_end
      else if band ! r = - 1 then (r, b + 1, band_end[b := int r])
      else band_end_loop k band (r + 1) (b + 1) (band_end[b := int r]))"

definition extract_schedule_node :: "'o isl_sched_graph \<Rightarrow> isl_sched_node \<Rightarrow> isl_schedule_node" where
  "extract_schedule_node graph node =
     (let ma = node_extract_schedule_multi_aff node in
      if g_n_band graph = 0
      then \<lparr> sn_sched = ma, sn_n_band = g_n_band graph, sn_band_end = [], sn_band_id = [],
             sn_coincident = [] \<rparr>
      else
        (let n_total_row = nat (g_n_total_row graph);
             res = band_end_loop n_total_row (nd_band node) 0 0 (replicate (nat (g_n_band graph)) 0);
             r = fst res;
             b = fst (snd res);
             band_end = snd (snd res);
             b1 = (if r = n_total_row then b + 1 else b);
             band_end1 = (if r = n_total_row then band_end[b := int r] else band_end) in
         \<lparr> sn_sched = ma, sn_n_band = int b1, sn_band_end = band_end1,
           sn_band_id = foldl (\<lambda>ids k. ids[k := nd_band_id node ! k])
                          (replicate (nat (g_n_band graph)) 0) (rev [0 ..< b1]),
           sn_coincident = map (\<lambda>k. nd_coincident node ! k) [0 ..< n_total_row] \<rparr>))"

definition extract_schedule :: "'o isl_sched_graph \<Rightarrow> isl_schedule" where
  "extract_schedule graph =
     \<lparr> s_n_band = g_n_band graph, s_n_total_row = g_n_total_row graph,
       s_node = map (extract_schedule_node graph) (g_node graph) \<rparr>"

section \<open>Scheduler: subgraphs\<close>

datatype node_pred = Node_scc_exactly | Node_scc_at_most | Node_scc_at_least

datatype edge_pred = Edge_scc_exactly | Edge_dst_scc_at_most | Edge_src_scc_at_least

fun node_pred_holds :: "node_pred \<Rightarrow> isl_sched_node \<Rightarrow> int \<Rightarrow> bool" where
  "node_pred_holds Node_scc_exactly node scc = (nd_scc node = scc)"
| "node_pred_holds Node_scc_at_most node scc = (nd_scc node \<le> scc)"
| "node_pred_holds Node_scc_at_least node scc = (nd_scc node \<ge> scc)"

fun edge_pred_holds :: "edge_pred \<Rightarrow> isl_sched_node list \<Rightarrow> 'o isl_sched_edge \<Rightarrow> int \<Rightarrow> bool" where
  "edge_pred_holds Edge_scc_exactly nodes edge scc =
     (nd_scc (nodes ! ed_src edge) = scc \<and> nd_scc (nodes ! ed_dst edge) = scc)"
| "edge_pred_holds Edge_dst_scc_at_most nodes edge scc = (nd_scc (nodes ! ed_dst edge) \<le> scc)"
| "edge_pred_holds Edge_src_scc_at_least nodes edge scc = (nd_scc (nodes ! ed_src edge) \<ge> scc)"

text \<open>
  \<open>copy_nodes\<close> fills nodes that \<open>graph_alloc\<close> has zeroed: the fields it does not copy are
  zero. The arrays \<open>band\<close>, \<open>band_id\<close> and \<open>coincident\<close> are shared with the node of the source
  graph; here the copy carries their contents and \<open>copy_schedule\<close> below writes them back,
  which gives the same contents since nothing reads the arrays of the source graph while
  the subgraph is being scheduled.
\<close>

definition copy_node :: "isl_sched_node \<Rightarrow> isl_sched_node" where
  "copy_node node =
     \<lparr> nd_dim = nd_dim node, nd_sched = nd_sched node, nd_rank = 0,
       nd_cmap = isl_mat_alloc 0 0, nd_cinv = isl_mat_alloc 0 0, nd_start = 0,
       nd_nvar = nd_nvar node, nd_nparam = nd_nparam node, nd_scc = 0,
       nd_band = nd_band node, nd_band_id = nd_band_id node, nd_coincident = nd_coincident node \<rparr>"

definition copy_nodes :: "'o isl_sched_graph \<Rightarrow> node_pred \<Rightarrow> int \<Rightarrow> isl_sched_node list" where
  "copy_nodes src npred data = map copy_node (filter (\<lambda>node. node_pred_holds npred node data) (g_node src))"

text \<open>\<open>graph_find_node\<close>: the index of the node that lives in a space.\<close>

fun find_node_from :: "isl_sched_node list \<Rightarrow> isl_space \<Rightarrow> nat \<Rightarrow> nat option" where
  "find_node_from [] space k = None"
| "find_node_from (node # nodes) space k =
     (if nd_dim node = space then Some k else find_node_from nodes space (k + 1))"

definition graph_find_node :: "'o isl_sched_graph \<Rightarrow> isl_space \<Rightarrow> nat option" where
  "graph_find_node graph space = find_node_from (g_node graph) space 0"

definition copy_edge ::
  "'o sched_ops \<Rightarrow> 'o isl_sched_graph \<Rightarrow> edge_pred \<Rightarrow> int \<Rightarrow> nat \<Rightarrow> 'o isl_sched_graph
     \<Rightarrow> sched_error + 'o isl_sched_graph" where
  "copy_edge ops src epred data i dst =
     (let edge = g_edge src ! i in
      if \<not> edge_pred_holds epred (g_node src) edge data then Inr dst
      else if isl_map_plain_is_empty ops (ed_map edge) \<noteq> Some False then Inr dst
      else
        (case (graph_find_node dst (nd_dim (g_node src ! ed_src edge)),
               graph_find_node dst (nd_dim (g_node src ! ed_dst edge))) of
           (Some dst_src, Some dst_dst) \<Rightarrow>
             (let e = length (g_edge dst);
                  dst1 = dst \<lparr> g_edge := g_edge dst @
                           [\<lparr> ed_map = ed_map edge,
                              ed_tagged_condition = ed_tagged_condition edge,
                              ed_tagged_validity = ed_tagged_validity edge,
                              ed_src = dst_src, ed_dst = dst_dst,
                              ed_validity = ed_validity edge,
                              ed_coincidence = ed_coincidence edge,
                              ed_proximity = ed_proximity edge,
                              ed_local = False,
                              ed_condition = ed_condition edge,
                              ed_conditional_validity = ed_conditional_validity edge,
                              ed_start = 0, ed_end = 0 \<rparr>] \<rparr> in
              Inr (foldl (\<lambda>g t. if graph_find_edge src t (ed_src edge) (ed_dst edge) = Some i
                                  then graph_edge_table_add g t e else g)
                     dst1 isl_edge_types))
         | _ \<Rightarrow>
             if ed_validity edge \<or> ed_conditional_validity edge
             then Inl (Internal ''backward (conditional) validity edge'')
             else Inr dst))"

definition copy_edges ::
  "'o sched_ops \<Rightarrow> 'o isl_sched_graph \<Rightarrow> 'o isl_sched_graph \<Rightarrow> edge_pred \<Rightarrow> int
     \<Rightarrow> sched_error + 'o isl_sched_graph" where
  "copy_edges ops dst src epred data =
     fold_err (copy_edge ops src epred data) [0 ..< length (g_edge src)] (dst \<lparr> g_edge := [] \<rparr>)"

text \<open>
  The first half of \<open>compute_sub_schedule\<close>: the subgraph \<open>split\<close>, which starts as zeroes,
  with \<open>n\<close> the number of nodes announced by the caller.
\<close>

definition sub_graph ::
  "'o sched_ops \<Rightarrow> 'o isl_sched_graph \<Rightarrow> nat \<Rightarrow> node_pred \<Rightarrow> edge_pred \<Rightarrow> int
     \<Rightarrow> sched_error + 'o isl_sched_graph" where
  "sub_graph ops graph n npred epred data =
     (case copy_edges ops
             \<lparr> g_node = copy_nodes graph npred data, g_maxvar = 0, g_max_row = 0, g_n_row = 0,
               g_sorted = [0 ..< n], g_n_band = 0, g_n_total_row = 0, g_band_start = 0,
               g_root = False, g_edge = [], g_edge_table = [],
               g_lp = \<lparr> lp_total = 0, lp_rational = False, lp_eq = [], lp_ineq = [] \<rparr>,
               g_src_scc = 0, g_dst_scc = 0, g_scc = 0 \<rparr>
             graph epred data of
        Inl e \<Rightarrow> Inl e
      | Inr split \<Rightarrow>
          Inr (split \<lparr> g_n_row := g_n_row graph, g_max_row := g_max_row graph,
                       g_n_total_row := g_n_total_row graph, g_n_band := g_n_band graph,
                       g_band_start := g_band_start graph \<rparr>))"

fun copy_schedule_nodes ::
  "node_pred \<Rightarrow> int \<Rightarrow> isl_sched_node list \<Rightarrow> isl_sched_node list \<Rightarrow> nat \<Rightarrow> isl_sched_node list"
where
  "copy_schedule_nodes npred data [] src k = []"
| "copy_schedule_nodes npred data (node # nodes) src k =
     (if node_pred_holds npred node data
      then node \<lparr> nd_sched := nd_sched (src ! k), nd_band := nd_band (src ! k),
                  nd_band_id := nd_band_id (src ! k), nd_coincident := nd_coincident (src ! k) \<rparr>
           # copy_schedule_nodes npred data nodes src (k + 1)
      else node # copy_schedule_nodes npred data nodes src k)"

definition copy_schedule ::
  "'o isl_sched_graph \<Rightarrow> 'o isl_sched_graph \<Rightarrow> node_pred \<Rightarrow> int \<Rightarrow> 'o isl_sched_graph" where
  "copy_schedule dst src npred data =
     dst \<lparr> g_node := copy_schedule_nodes npred data (g_node dst) (g_node src) 0,
           g_max_row := g_max_row src, g_n_total_row := g_n_total_row src,
           g_n_band := g_n_band src \<rparr>"

definition compute_maxvar :: "'o sched_ops \<Rightarrow> 'o isl_sched_graph \<Rightarrow> 'o isl_sched_graph option" where
  "compute_maxvar ops graph =
     fold_opt (\<lambda>i g.
         case node_update_cmap ops (g_node g ! i) of
           None \<Rightarrow> None
         | Some node \<Rightarrow>
             (let nvar = int (nd_nvar node) + g_n_row g - nd_rank node in
              Some (g \<lparr> g_node := (g_node g)[i := node],
                        g_maxvar := (if nvar > g_maxvar g then nvar else g_maxvar g) \<rparr>)))
       [0 ..< length (g_node graph)] (graph \<lparr> g_maxvar := 0 \<rparr>)"

text \<open>
  \<open>pad_schedule\<close>: zero rows are added to every node up to \<open>graph->n_total_row\<close> rows; the
  added rows belong to band \<open>-1\<close>.
\<close>

definition pad_schedule_node :: "int \<Rightarrow> isl_sched_node \<Rightarrow> isl_sched_node" where
  "pad_schedule_node n_total_row node =
     (let row = isl_mat_rows (nd_sched node) in
      node \<lparr> nd_sched := isl_mat_add_zero_rows (nd_sched node) (n_total_row - row),
             nd_band := foldl (\<lambda>band j. band[j := - 1]) (nd_band node) [nat row ..< nat n_total_row] \<rparr>)"

definition pad_schedule :: "'o isl_sched_graph \<Rightarrow> 'o isl_sched_graph" where
  "pad_schedule graph =
     graph \<lparr> g_node := map (pad_schedule_node (g_n_total_row graph)) (g_node graph) \<rparr>"

definition reset_band :: "'o isl_sched_graph \<Rightarrow> 'o isl_sched_graph" where
  "reset_band graph =
     (let drop_rows = g_n_total_row graph - g_band_start graph in
      graph \<lparr> g_n_total_row := g_n_total_row graph - drop_rows,
              g_n_row := g_n_row graph - drop_rows,
              g_node := map (\<lambda>node. node \<lparr> nd_sched :=
                               isl_mat_drop_rows (nd_sched node) (g_band_start graph) drop_rows \<rparr>)
                          (g_node graph) \<rparr>)"

text \<open>
  \<open>compute_split_schedule\<close> up to its first recursive call: the rows of the current band
  are dropped, a row with the constant 0 or 1 separates the two groups, and the band is
  closed. The result carries \<open>n\<close>, \<open>e1\<close> and \<open>e2\<close>.
\<close>

definition split_row_node :: "int \<Rightarrow> int \<Rightarrow> int \<Rightarrow> isl_sched_node \<Rightarrow> isl_sched_node" where
  "split_row_node src_scc n_total_row n_band node =
     (let row = isl_mat_rows (nd_sched node);
          cols = m_n_col (nd_sched node);
          before = (nd_scc node \<le> src_scc);
          sched0 = isl_mat_set_element (isl_mat_add_rows (nd_sched node) 1) row 0
                     (if before then 0 else 1);
          sched1 = foldl (\<lambda>m j. isl_mat_set_element m row (int j) 0) sched0 [1 ..< cols] in
      node \<lparr> nd_sched := sched1, nd_band := (nd_band node)[nat n_total_row := n_band],
             nd_coincident := (nd_coincident node)[nat n_total_row := 0] \<rparr>)"

definition split_prepare ::
  "'o isl_sched_graph \<Rightarrow> sched_error + ('o isl_sched_graph \<times> nat \<times> nat \<times> nat)" where
  "split_prepare graph =
     (if g_n_total_row graph \<ge> g_max_row graph then Inl (Internal ''too many schedule rows'')
      else
        (let graph1 = reset_band graph;
             src_scc = g_src_scc graph1;
             n = length (filter (\<lambda>node. nd_scc node \<le> src_scc) (g_node graph1));
             nodes = map (split_row_node src_scc (g_n_total_row graph1) (g_n_band graph1))
                       (g_node graph1);
             e1 = length (filter (\<lambda>edge. nd_scc (nodes ! ed_dst edge) \<le> src_scc) (g_edge graph1));
             e2 = length (filter (\<lambda>edge. nd_scc (nodes ! ed_src edge) > src_scc) (g_edge graph1));
             graph2 = next_band (graph1 \<lparr> g_node := nodes,
                                          g_n_total_row := g_n_total_row graph1 + 1 \<rparr>);
             graph3 = graph2 \<lparr> g_node := map (\<lambda>node.
                                   if nd_scc node > src_scc
                                   then node \<lparr> nd_band_id := (nd_band_id node)[nat (g_n_band graph2) := int n] \<rparr>
                                   else node)
                                 (g_node graph2) \<rparr> in
         Inr (graph3, n, e1, e2)))"

section \<open>Scheduler: carrying dependences\<close>

text \<open>
  The number of slack variables of the carry LP: \<open>n_edge\<close> of \<open>setup_carry_lp\<close> and of
  \<open>carry_dependences\<close>, the total number of basic maps in the relations of all edges.
\<close>

definition carry_n_edge :: "'o sched_ops \<Rightarrow> 'o isl_sched_graph \<Rightarrow> nat" where
  "carry_n_edge ops graph = sum_list (map (\<lambda>edge. isl_map_n ops (ed_map edge)) (g_edge graph))"

fun setup_carry_nodes :: "nat list \<Rightarrow> nat \<Rightarrow> isl_sched_node list \<Rightarrow> isl_sched_node list \<times> nat" where
  "setup_carry_nodes [] tot nodes = (nodes, tot)"
| "setup_carry_nodes (k # ks) tot nodes =
     setup_carry_nodes ks (tot + (1 + 2 * (nd_nparam (nodes ! k) + nd_nvar (nodes ! k))))
       (nodes[k := (nodes ! k) \<lparr> nd_start := tot \<rparr>])"

text \<open>
  Modelled from the spec: \<open>isl_dim_map\<close> is outside the two source files. A map has an entry
  for the constant term and for every variable of the LP: the position in the constraint it
  reads from and a sign, zero when nothing is read. \<open>isl_dim_map_range\<close> sets \<open>n\<close> entries,
  \<open>isl_basic_set_add_constraints_dim_map\<close> adds every constraint of the dual after moving
  its coefficients as the map says; this is the substitution that the comments of
  \<open>add_intra_constraints\<close> and \<open>add_inter_constraints\<close> describe.
\<close>

type_synonym isl_dim_map = "(nat \<times> int) list"

definition isl_dim_map_alloc :: "nat \<Rightarrow> isl_dim_map" where
  "isl_dim_map_alloc len = (0, 1) # replicate len (0, 0)"

definition isl_dim_map_range ::
  "isl_dim_map \<Rightarrow> nat \<Rightarrow> nat \<Rightarrow> nat \<Rightarrow> nat \<Rightarrow> nat \<Rightarrow> int \<Rightarrow> isl_dim_map" where
  "isl_dim_map_range dim_map dst_pos dst_stride src_pos src_stride n sign =
     foldl (\<lambda>m i. m[1 + dst_pos + dst_stride * i := (1 + src_pos + src_stride * i, sign)])
       dim_map [0 ..< n]"

definition copy_constraint_dim_map :: "isl_dim_map \<Rightarrow> row \<Rightarrow> row" where
  "copy_constraint_dim_map dim_map c =
     map (\<lambda>(p, sgn). if sgn = 0 then 0 else if sgn > 0 then c ! p else - (c ! p)) dim_map"

definition isl_basic_set_add_constraints_dim_map :: "isl_lp \<Rightarrow> isl_coef \<Rightarrow> isl_dim_map \<Rightarrow> isl_lp" where
  "isl_basic_set_add_constraints_dim_map lp coef dim_map =
     lp_add lp (map (copy_constraint_dim_map dim_map) (cf_eq coef),
                map (copy_constraint_dim_map dim_map) (cf_ineq coef))"

text \<open>
  \<open>add_intra_constraints\<close>, for basic map \<open>j\<close> of the relation of an edge from a node to
  itself, with sequence number \<open>pos\<close>: \<open>(-e_pos, 0, c_x)\<close> is put in the place of
  \<open>(c_0, c_n, c_x)\<close>, with \<open>c_x\<close> the difference of its two parts.
\<close>

definition intra_dim_map :: "isl_sched_node \<Rightarrow> nat \<Rightarrow> nat \<Rightarrow> nat \<Rightarrow> isl_dim_map" where
  "intra_dim_map node tot dim pos =
     (let m0 = isl_dim_map_alloc tot;
          m1 = isl_dim_map_range m0 (3 + pos) 0 0 0 1 (- 1);
          m2 = isl_dim_map_range m1 (nd_start node + 2 * nd_nparam node + 1) 2 dim 1 (nd_nvar node) (- 1);
          m3 = isl_dim_map_range m2 (nd_start node + 2 * nd_nparam node + 2) 2 dim 1 (nd_nvar node) 1 in
      m3)"

definition add_intra_constraints ::
  "'o sched_ops \<Rightarrow> 'o isl_sched_graph \<Rightarrow> nat \<Rightarrow> nat \<Rightarrow> nat \<Rightarrow> 'o isl_sched_graph option" where
  "add_intra_constraints ops graph e j pos =
     (let edge = g_edge graph ! e;
          node = g_node graph ! ed_src edge in
      case intra_coefficients ops (ed_map edge) j of
        None \<Rightarrow> None
      | Some coef \<Rightarrow>
          Some (graph \<lparr> g_lp := isl_basic_set_add_constraints_dim_map (g_lp graph) coef
                                   (intra_dim_map node (lp_total (g_lp graph)) (cf_dim coef) pos) \<rparr>))"

text \<open>
  \<open>add_inter_constraints\<close>, for an edge from node \<open>src\<close> to another node \<open>dst\<close>:
  \<open>(-e_pos + c_dst_0 - c_src_0, c_dst_n - c_src_n, (-c_src_x, c_dst_x))\<close> is put in the place
  of \<open>(c_0, c_n, c_x)\<close>.
\<close>

definition inter_dim_map ::
  "isl_sched_node \<Rightarrow> isl_sched_node \<Rightarrow> nat \<Rightarrow> nat \<Rightarrow> nat \<Rightarrow> isl_dim_map" where
  "inter_dim_map src dst tot dim pos =
     (let m0 = isl_dim_map_alloc tot;
          m1 = isl_dim_map_range m0 (3 + pos) 0 0 0 1 (- 1);
          m2 = isl_dim_map_range m1 (nd_start dst) 0 0 0 1 1;
          m3 = isl_dim_map_range m2 (nd_start dst + 1) 2 1 1 (nd_nparam dst) (- 1);
          m4 = isl_dim_map_range m3 (nd_start dst + 2) 2 1 1 (nd_nparam dst) 1;
          m5 = isl_dim_map_range m4 (nd_start dst + 2 * nd_nparam dst + 1) 2
                 (dim + nd_nvar src) 1 (nd_nvar dst) (- 1);
          m6 = isl_dim_map_range m5 (nd_start dst + 2 * nd_nparam dst + 2) 2
                 (dim + nd_nvar src) 1 (nd_nvar dst) 1;
          m7 = isl_dim_map_range m6 (nd_start src) 0 0 0 1 (- 1);
          m8 = isl_dim_map_range m7 (nd_start src + 1) 2 1 1 (nd_nparam src) 1;
          m9 = isl_dim_map_range m8 (nd_start src + 2) 2 1 1 (nd_nparam src) (- 1);
          m10 = isl_dim_map_range m9 (nd_start src + 2 * nd_nparam src + 1) 2 dim 1 (nd_nvar src) 1;
          m11 = isl_dim_map_range m10 (nd_start src + 2 * nd_nparam src + 2) 2 dim 1 (nd_nvar src) (- 1) in
      m11)"

definition add_inter_constraints ::
  "'o sched_ops \<Rightarrow> 'o isl_sched_graph \<Rightarrow> nat \<Rightarrow> nat \<Rightarrow> nat \<Rightarrow> 'o isl_sched_graph option" where
  "add_inter_constraints ops graph e j pos =
     (let edge = g_edge graph ! e;
          src = g_node graph ! ed_src edge;
          dst = g_node graph ! ed_dst edge in
      case inter_coefficients ops (ed_map edge) j of
        None \<Rightarrow> None
      | Some coef \<Rightarrow>
          Some (graph \<lparr> g_lp := isl_basic_set_add_constraints_dim_map (g_lp graph) coef
                                   (inter_dim_map src dst (lp_total (g_lp graph)) (cf_dim coef) pos) \<rparr>))"

text \<open>
  \<open>add_all_constraints\<close>: the basic maps of the validity and conditional validity edges, in
  the order of the edges; only they advance the sequence number \<open>pos\<close>.
  \<open>carry_edge_maps\<close> lists them, an edge with the index of a basic map.
\<close>

definition carry_edge_maps :: "'o sched_ops \<Rightarrow> 'o isl_sched_graph \<Rightarrow> (nat \<times> nat) list" where
  "carry_edge_maps ops graph =
     concat (map (\<lambda>i. let edge = g_edge graph ! i in
                       if \<not> ed_validity edge \<and> \<not> ed_conditional_validity edge then []
                       else map (\<lambda>j. (i, j)) [0 ..< isl_map_n ops (ed_map edge)])
                 [0 ..< length (g_edge graph)])"

definition add_carry_constraints ::
  "'o sched_ops \<Rightarrow> nat \<times> nat \<Rightarrow> 'o isl_sched_graph \<times> nat \<Rightarrow> ('o isl_sched_graph \<times> nat) option" where
  "add_carry_constraints ops ij st =
     (let graph = fst st; pos = snd st; edge = g_edge graph ! fst ij in
      case (if ed_src edge = ed_dst edge then add_intra_constraints ops graph (fst ij) (snd ij) pos
            else add_inter_constraints ops graph (fst ij) (snd ij) pos) of
        None \<Rightarrow> None
      | Some graph1 \<Rightarrow> Some (graph1, pos + 1))"

definition add_all_constraints ::
  "'o sched_ops \<Rightarrow> 'o isl_sched_graph \<Rightarrow> 'o isl_sched_graph option" where
  "add_all_constraints ops graph =
     (case fold_opt (add_carry_constraints ops) (carry_edge_maps ops graph) (graph, 0) of
        None \<Rightarrow> None
      | Some st \<Rightarrow> Some (fst st))"

text \<open>
  \<open>setup_carry_lp\<close>. The variables are the sum of the \<open>1 - e_i\<close>, the sum of the parts of all
  \<open>c_n\<close>, the sum of the parts of all \<open>c_x\<close>, the \<open>e_i\<close>, then for each node \<open>c_0\<close> and the parts
  of \<open>c_n\<close> and \<open>c_x\<close>. The counts of constraints only size the allocation and are left out.
\<close>

definition carry_lp_eq1 :: "nat \<Rightarrow> nat \<Rightarrow> row" where
  "carry_lp_eq1 tot n_edge =
     lp_row tot ((0, - int n_edge) # (1, 1) # map (\<lambda>i. (4 + i, 1)) [0 ..< n_edge])"

definition carry_lp_ineq :: "nat \<Rightarrow> nat \<Rightarrow> row" where
  "carry_lp_ineq tot i = lp_row tot [(4 + i, - 1), (0, 1)]"

definition setup_carry_lp ::
  "'o sched_ops \<Rightarrow> sched_options \<Rightarrow> 'o isl_sched_graph \<Rightarrow> 'o isl_sched_graph option" where
  "setup_carry_lp ops opts graph =
     (let n_edge = carry_n_edge ops graph;
          res = setup_carry_nodes (take (length (g_node graph)) (g_sorted graph)) (3 + n_edge)
                  (g_node graph);
          nodes = fst res;
          tot = snd res;
          eq2 = lp_row tot ((2, - 1) #
                  concat (map (\<lambda>node. map (\<lambda>j. (1 + nd_start node + 1 + j, 1))
                                         [0 ..< 2 * nd_nparam node]) nodes));
          eq3 = lp_row tot ((3, - 1) #
                  concat (map (\<lambda>node.
                            map (\<lambda>j. (1 + nd_start node + 1 + 2 * nd_nparam node + j, 1))
                                [0 ..< 2 * nd_nvar node]) nodes));
          lp = \<lparr> lp_total = tot, lp_rational = True,
                 lp_eq = [carry_lp_eq1 tot n_edge, eq2, eq3],
                 lp_ineq = map (carry_lp_ineq tot) [0 ..< n_edge] \<rparr> in
      add_all_constraints ops
        (add_bound_coefficient_constraints opts (graph \<lparr> g_node := nodes, g_lp := lp \<rparr>)))"

text \<open>
  \<open>split_scaled\<close>: if the linear parts of the last row of all nodes have a common divisor
  greater than one, the remainder of the constant term moves to a new row in a new band.
\<close>

definition split_scaled_node :: "int \<Rightarrow> int \<Rightarrow> int \<Rightarrow> int \<Rightarrow> isl_sched_node \<Rightarrow> isl_sched_node" where
  "split_scaled_node row g n_total_row n_band node =
     (let sched0 = isl_mat_add_zero_rows (nd_sched node) 1;
          c = isl_mat_get_element sched0 row 0;
          sched1 = isl_mat_set_element sched0 (row + 1) 0 (c mod g);
          sched2 = isl_mat_set_element sched1 row 0 ((c div g) * g);
          sched3 = isl_mat_scale_down_row sched2 row g in
      node \<lparr> nd_sched := sched3, nd_band := (nd_band node)[nat n_total_row := n_band] \<rparr>)"

definition split_scaled ::
  "sched_options \<Rightarrow> 'o isl_sched_graph \<Rightarrow> sched_error + 'o isl_sched_graph" where
  "split_scaled opts graph =
     (if \<not> schedule_split_scaled opts then Inr graph
      else if length (g_node graph) \<le> 1 then Inr graph
      else if g_n_total_row graph \<ge> g_max_row graph then Inl (Internal ''too many schedule rows'')
      else
        (let row = isl_mat_rows (nd_sched (g_node graph ! 0)) - 1;
             g = foldl (\<lambda>g node. gcd g (isl_seq_gcd (tl (m_rows (nd_sched node) ! nat row))))
                   0 (g_node graph) in
         if g \<le> 1 then Inr graph
         else
           (let graph1 = next_band graph in
            Inr (graph1 \<lparr> g_node := map (split_scaled_node row g (g_n_total_row graph1)
                                             (g_n_band graph1)) (g_node graph1),
                          g_n_total_row := g_n_total_row graph1 + 1 \<rparr>))))"

text \<open>
  \<open>is_trivial\<close>: is the solution zero on the directions of the node that are independent of
  its earlier rows? \<open>None\<close> is the result \<open>-1\<close>, returned when there is no solution.
\<close>

definition is_trivial :: "isl_sched_node \<Rightarrow> int list option \<Rightarrow> bool option" where
  "is_trivial node sol =
     (case sol of
        None \<Rightarrow> None
      | Some v \<Rightarrow>
          if int (nd_nvar node) = nd_rank node then Some False
          else
            (let pos = 1 + nd_start node + 1 + 2 * nd_nparam node;
                 node_sol = isl_mat_vec_product (nd_cinv node)
                              (map (\<lambda>i. v ! (pos + 2 * i + 1) - v ! (pos + 2 * i)) [0 ..< nd_nvar node]) in
             Some (isl_seq_first_non_zero
                     (take (nd_nvar node - nat (nd_rank node)) (drop (nat (nd_rank node)) node_sol))
                   = - 1)))"

fun is_any_trivial_from ::
  "'o isl_sched_graph \<Rightarrow> isl_sched_node list \<Rightarrow> int list option \<Rightarrow> bool option" where
  "is_any_trivial_from graph [] sol = Some False"
| "is_any_trivial_from graph (node # nodes) sol =
     (if \<not> needs_row graph node then is_any_trivial_from graph nodes sol
      else
        (case is_trivial node sol of
           None \<Rightarrow> None
         | Some trivial \<Rightarrow> if trivial then Some True else is_any_trivial_from graph nodes sol))"

definition is_any_trivial :: "'o isl_sched_graph \<Rightarrow> int list option \<Rightarrow> bool option" where
  "is_any_trivial graph sol = is_any_trivial_from graph (g_node graph) sol"

text \<open>
  Modelled from the spec: \<open>isl_int_divexact\<close> is outside the two source files. It is the
  quotient of a number by a divisor of it, and has no defined result otherwise.
\<close>

definition isl_int_divexact :: "int \<Rightarrow> int \<Rightarrow> int option" where
  "isl_int_divexact a b = (if b dvd a then Some (a div b) else None)"

text \<open>
  \<open>carry_dependences\<close> up to the point where it either fails, hands the graph to
  \<open>compute_component_schedule\<close>, or goes on with \<open>update_schedule\<close> on the solution (which
  is \<open>None\<close> after \<open>isl_vec_free\<close>).
\<close>

datatype 'o carry_outcome =
    Carry_fail sched_error
  | Carry_components "'o isl_sched_graph"
  | Carry_row "'o isl_sched_graph" "int list option"

definition carry_solution ::
  "'o sched_ops \<Rightarrow> sched_options \<Rightarrow> 'o isl_sched_graph \<Rightarrow> 'o carry_outcome" where
  "carry_solution ops opts graph =
     (let n_edge = carry_n_edge ops graph in
      case setup_carry_lp ops opts graph of
        None \<Rightarrow> Carry_fail Failure
      | Some graph1 \<Rightarrow>
          (case isl_tab_basic_set_non_neg_lexmin ops (g_lp graph1) of
             None \<Rightarrow> Carry_fail Failure
           | Some sol0 \<Rightarrow>
               if sol0 = [] then Carry_fail (Internal ''error in schedule construction'')
               else
                 (case isl_int_divexact (sol0 ! 1) (sol0 ! 0) of
                    None \<Rightarrow> Carry_fail No_result
                  | Some q \<Rightarrow>
                      (let sol = sol0[1 := q] in
                       if sol ! 1 \<ge> int n_edge
                       then Carry_fail (Unknown ''unable to carry dependences'')
                       else
                         (case is_any_trivial graph1 (Some sol) of
                            None \<Rightarrow> Carry_row graph1 None
                          | Some trivial \<Rightarrow>
                              if trivial then
                                (if g_scc graph1 > 1 then Carry_components graph1
                                 else Carry_fail
                                        (Unknown ''unable to construct non-trivial solution''))
                              else Carry_row graph1 (Some sol))))))"

section \<open>Scheduler: conditional validity\<close>

definition has_validity_edges :: "'o sched_ops \<Rightarrow> 'o isl_sched_graph \<Rightarrow> bool option" where
  "has_validity_edges ops graph =
     fold_opt (\<lambda>edge found.
         if found then Some True
         else
           (case isl_map_plain_is_empty ops (ed_map edge) of
              None \<Rightarrow> None
            | Some emp \<Rightarrow>
                if emp then Some False
                else Some (ed_validity edge \<or> ed_conditional_validity edge)))
       (g_edge graph) False"

definition need_feautrier_step ::
  "'o sched_ops \<Rightarrow> sched_options \<Rightarrow> 'o isl_sched_graph \<Rightarrow> bool option" where
  "need_feautrier_step ops opts graph =
     (if \<not> schedule_algorithm_feautrier opts then Some False else has_validity_edges ops graph)"

definition clear_local_edges :: "'o isl_sched_graph \<Rightarrow> 'o isl_sched_graph" where
  "clear_local_edges graph =
     graph \<lparr> g_edge := map (\<lambda>edge. if ed_condition edge then edge \<lparr> ed_local := False \<rparr> else edge)
                          (g_edge graph) \<rparr>"

definition need_condition_check :: "'o isl_sched_graph \<Rightarrow> bool" where
  "need_condition_check graph =
     (list_ex ed_condition (g_edge graph) \<and> list_ex ed_conditional_validity (g_edge graph))"

definition has_any_coincidence :: "'o isl_sched_graph \<Rightarrow> bool" where
  "has_any_coincidence graph = list_ex ed_coincidence (g_edge graph)"

definition final_row :: "'o sched_ops \<Rightarrow> isl_sched_node \<Rightarrow> 'o" where
  "final_row ops node = isl_map_from_sched_row ops node (isl_mat_rows (nd_sched node) - 1)"

definition is_violated :: "'o sched_ops \<Rightarrow> 'o isl_sched_graph \<Rightarrow> nat \<Rightarrow> bool option" where
  "is_violated ops graph edge_index =
     (let edge = g_edge graph ! edge_index;
          src_sched = final_row ops (g_node graph ! ed_src edge);
          dst_sched = final_row ops (g_node graph ! ed_dst edge);
          m = isl_map_order_gt ops
                (isl_map_apply_range ops (isl_map_apply_domain ops (ed_map edge) src_sched) dst_sched) in
      case isl_map_is_empty ops m of None \<Rightarrow> None | Some emp \<Rightarrow> Some (\<not> emp))"

definition domain_intersects :: "'o sched_ops \<Rightarrow> 'o \<Rightarrow> 'o \<Rightarrow> bool option" where
  "domain_intersects ops umap uset =
     (case isl_union_map_intersect_domain ops umap uset of
        None \<Rightarrow> None
      | Some u \<Rightarrow> (case isl_union_map_is_empty ops u of None \<Rightarrow> None | Some emp \<Rightarrow> Some (\<not> emp)))"

definition range_intersects :: "'o sched_ops \<Rightarrow> 'o \<Rightarrow> 'o \<Rightarrow> bool option" where
  "range_intersects ops umap uset =
     (case isl_union_map_intersect_range ops umap uset of
        None \<Rightarrow> None
      | Some u \<Rightarrow> (case isl_union_map_is_empty ops u of None \<Rightarrow> None | Some emp \<Rightarrow> Some (\<not> emp)))"

text \<open>
  \<open>is_condition_false\<close>: are source and sink of the condition dependences of the edge mapped
  to the same point by the current schedule? The edge always has a tagged condition here;
  an edge without one is a failure of the collaborators.
\<close>

definition is_condition_false ::
  "'o sched_ops \<Rightarrow> 'o isl_sched_graph \<Rightarrow> 'o isl_sched_edge \<Rightarrow> bool option" where
  "is_condition_false ops graph edge =
     (case ed_tagged_condition edge of
        None \<Rightarrow> None
      | Some tc \<Rightarrow>
          (let m0 = isl_map_from_union_map ops
                      (isl_union_set_unwrap ops (isl_union_map_domain ops (isl_union_map_zip ops tc)));
               m1 = isl_map_apply_domain ops m0 (isl_map_from_sched ops (g_node graph ! ed_src edge));
               m2 = isl_map_apply_range ops m1 (isl_map_from_sched ops (g_node graph ! ed_dst edge)) in
           isl_map_is_subset ops m2 (isl_map_identity_like ops m2)))"

definition has_adjacent_true_conditions ::
  "'o sched_ops \<Rightarrow> 'o isl_sched_graph \<Rightarrow> 'o \<Rightarrow> 'o \<Rightarrow> (bool \<times> 'o isl_sched_graph) option" where
  "has_adjacent_true_conditions ops graph conditional_source conditional_sink =
     fold_opt (\<lambda>i st.
         let g = snd st; edge = g_edge g ! i in
         if \<not> ed_condition edge then Some st
         else if ed_local edge then Some st
         else
           (case ed_tagged_condition edge of
              None \<Rightarrow> None
            | Some condition \<Rightarrow>
                (case (case domain_intersects ops condition conditional_sink of
                         None \<Rightarrow> None
                       | Some adjacent \<Rightarrow>
                           if adjacent then Some True
                           else range_intersects ops condition conditional_source) of
                   None \<Rightarrow> None
                 | Some adjacent \<Rightarrow>
                     if \<not> adjacent then Some st
                     else
                       (let g1 = g \<lparr> g_edge := (g_edge g)[i := edge \<lparr> ed_local := True \<rparr>] \<rparr> in
                        case is_condition_false ops g1 (g_edge g1 ! i) of
                          None \<Rightarrow> None
                        | Some local \<Rightarrow> Some (if \<not> local then True else fst st, g1)))))
       [0 ..< length (g_edge graph)] (False, graph)"

definition has_violated_conditional_constraint ::
  "'o sched_ops \<Rightarrow> 'o isl_sched_graph \<Rightarrow> (bool \<times> 'o isl_sched_graph) option" where
  "has_violated_conditional_constraint ops graph =
     (case fold_opt (\<lambda>i st.
              let edge = g_edge graph ! i in
              if \<not> ed_conditional_validity edge then Some st
              else
                (case is_violated ops graph i of
                   None \<Rightarrow> None
                 | Some violated \<Rightarrow>
                     if \<not> violated then Some st
                     else
                       (case ed_tagged_validity edge of
                          None \<Rightarrow> None
                        | Some tv \<Rightarrow>
                            Some (True,
                                  isl_union_set_coalesce ops
                                    (isl_union_set_union ops (fst (snd st)) (isl_union_map_domain ops tv)),
                                  isl_union_set_coalesce ops
                                    (isl_union_set_union ops (snd (snd st)) (isl_union_map_range ops tv))))))
            [0 ..< length (g_edge graph)]
            (False, isl_union_set_empty ops, isl_union_set_empty ops) of
        None \<Rightarrow> None
      | Some st \<Rightarrow>
          if fst st then has_adjacent_true_conditions ops graph (fst (snd st)) (snd (snd st))
          else Some (False, graph))"

section \<open>Affine scheduler: the infeasible branch of \<open>compute_schedule_wcc\<close>\<close>

text \<open>
  What \<open>compute_schedule_wcc\<close> does next when \<open>solve_lp\<close> returns a vector of size zero.
  The four outcomes are the four \<open>return\<close>/\<open>continue\<close> statements of the branch.
\<close>

datatype infeasible_action =
    Retry_without_coincidence
  | Compute_next_band
  | Compute_split_schedule
  | Carry_dependences

text \<open>
  The branch \<open>if (sol->size == 0) { ... }\<close> of the main loop. The arguments are the local
  variables and fields the branch reads: \<open>use_coincidence\<close>, \<open>force_coincidence\<close>, the option
  \<open>schedule_maximize_band_depth\<close>, \<open>graph->src_scc\<close>, \<open>graph->n_total_row\<close> and
  \<open>graph->band_start\<close>.
\<close>

definition lp_infeasible_action ::
  "bool \<Rightarrow> bool \<Rightarrow> bool \<Rightarrow> int \<Rightarrow> int \<Rightarrow> int \<Rightarrow> infeasible_action" where
  "lp_infeasible_action use_coincidence force_coincidence maximize_band_depth
      src_scc n_total_row band_start =
    (let empty = (n_total_row = band_start) in
     if use_coincidence \<and> (\<not> force_coincidence \<or> \<not> empty) then Retry_without_coincidence
     else if \<not> maximize_band_depth \<and> \<not> empty then Compute_next_band
     else if src_scc \<ge> 0 then Compute_split_schedule
     else if \<not> empty then Compute_next_band
     else Carry_dependences)"

section \<open>Scheduler: the driver\<close>

text \<open>\<open>split_on_scc\<close>: a row with the component of each node, in a band of its own.\<close>

definition split_on_scc :: "'o isl_sched_graph \<Rightarrow> sched_error + 'o isl_sched_graph" where
  "split_on_scc graph =
     (if g_n_total_row graph \<ge> g_max_row graph then Inl (Internal ''too many schedule rows'')
      else
        Inr (next_band
               (graph \<lparr> g_node := map (\<lambda>node.
                            let row = isl_mat_rows (nd_sched node) in
                            node \<lparr> nd_sched := isl_mat_set_element
                                                  (isl_mat_add_zero_rows (nd_sched node) 1) row 0 (nd_scc node),
                                   nd_band := (nd_band node)[nat (g_n_total_row graph) := g_n_band graph] \<rparr>)
                          (g_node graph),
                        g_n_total_row := g_n_total_row graph + 1 \<rparr>)))"

text \<open>
  \<open>compute_component_schedule\<close> up to its loop over the components: the optional row that
  separates the components, then the component is added to the band identifier.
\<close>

definition component_prepare ::
  "sched_options \<Rightarrow> 'o isl_sched_graph \<Rightarrow> sched_error + 'o isl_sched_graph" where
  "component_prepare opts graph =
     (case (if schedule_fuse_min opts \<or> schedule_separate_components opts
            then split_on_scc graph else Inr graph) of
        Inl e \<Rightarrow> Inl e
      | Inr graph1 \<Rightarrow>
          Inr (graph1 \<lparr> g_node := map (\<lambda>node.
                           node \<lparr> nd_band_id := (nd_band_id node)[nat (g_n_band graph1) :=
                                    nd_band_id node ! nat (g_n_band graph1) + nd_scc node] \<rparr>)
                         (g_node graph1) \<rparr>))"

text \<open>The first three steps of \<open>compute_schedule_wcc\<close>.\<close>

definition wcc_prepare :: "'o sched_ops \<Rightarrow> 'o isl_sched_graph \<Rightarrow> 'o isl_sched_graph option" where
  "wcc_prepare ops graph =
     (case detect_sccs ops graph of
        None \<Rightarrow> None
      | Some graph1 \<Rightarrow> compute_maxvar ops (sort_sccs graph1))"

text \<open>
  The end of an iteration of the loop of \<open>compute_schedule_wcc\<close> that found a solution: the
  row is added; if a conditional validity constraint is violated the band is reset. The
  result carries the new value of \<open>use_coincidence\<close>.
\<close>

definition wcc_add_row ::
  "'o sched_ops \<Rightarrow> 'o isl_sched_graph \<Rightarrow> bool \<Rightarrow> bool \<Rightarrow> bool \<Rightarrow> int list
     \<Rightarrow> sched_error + ('o isl_sched_graph \<times> bool)" where
  "wcc_add_row ops graph has_coincidence use_coincidence check_conditional sol =
     (let coincident = (\<not> has_coincidence \<or> use_coincidence) in
      case update_schedule graph (Some sol) True (if coincident then 1 else 0) of
        Inl e \<Rightarrow> Inl e
      | Inr graph1 \<Rightarrow>
          if \<not> check_conditional then Inr (graph1, use_coincidence)
          else
            (case has_violated_conditional_constraint ops graph1 of
               None \<Rightarrow> Inl Failure
             | Some res \<Rightarrow>
                 if \<not> fst res then Inr (snd res, use_coincidence)
                 else Inr (reset_band (snd res), has_coincidence)))"

text \<open>
  The functions of the driver call each other. Each one is given here as a body that reaches
  the others through \<open>run\<close>, which is told which function to call; \<open>sched_run\<close> below ties
  them together. The recursion is bounded by a counter, which every call and every
  iteration of the two loops decrements; the loops of \<open>compute_schedule_wcc\<close> and of
  \<open>compute_component_schedule\<close> take their local variables as arguments.
\<close>

datatype sched_call =
    Call_compute_schedule
  | Call_compute_schedule_wcc
  | Call_wcc_loop bool bool bool bool
  | Call_compute_next_band
  | Call_compute_split_schedule
  | Call_compute_sub_schedule nat node_pred edge_pred int bool
  | Call_carry_dependences
  | Call_compute_component_schedule
  | Call_component_loop int int int int int

type_synonym 'o sched_result = "sched_error + 'o isl_sched_graph"

type_synonym 'o sched_run = "sched_call \<Rightarrow> 'o isl_sched_graph \<Rightarrow> 'o sched_result"

definition compute_schedule_body ::
  "'o sched_run \<Rightarrow> 'o sched_ops \<Rightarrow> sched_options \<Rightarrow> 'o isl_sched_graph \<Rightarrow> 'o sched_result" where
  "compute_schedule_body run ops opts graph =
     (case (if schedule_fuse_min opts then detect_sccs ops graph else detect_wccs ops graph) of
        None \<Rightarrow> Inl Failure
      | Some graph1 \<Rightarrow>
          if g_scc graph1 > 1 then run Call_compute_component_schedule graph1
          else run Call_compute_schedule_wcc graph1)"

definition compute_schedule_wcc_body ::
  "'o sched_run \<Rightarrow> 'o sched_ops \<Rightarrow> sched_options \<Rightarrow> 'o isl_sched_graph \<Rightarrow> 'o sched_result" where
  "compute_schedule_wcc_body run ops opts graph =
     (case wcc_prepare ops graph of
        None \<Rightarrow> Inl Failure
      | Some graph1 \<Rightarrow>
          if need_feautrier_step ops opts graph1 \<noteq> Some False
          then run Call_carry_dependences graph1
          else
            (let graph2 = clear_local_edges graph1;
                 has_coincidence = has_any_coincidence graph2 in
             run (Call_wcc_loop has_coincidence has_coincidence (schedule_outer_coincidence opts)
                    (need_condition_check graph2)) graph2))"

definition wcc_loop_body ::
  "'o sched_run \<Rightarrow> 'o sched_ops \<Rightarrow> sched_options \<Rightarrow> bool \<Rightarrow> bool \<Rightarrow> bool \<Rightarrow> bool
     \<Rightarrow> 'o isl_sched_graph \<Rightarrow> 'o sched_result" where
  "wcc_loop_body run ops opts has_coincidence use_coincidence force_coincidence check_conditional graph =
     (if \<not> g_n_row graph < g_maxvar graph
      then sort_statements ops
             (if g_n_total_row graph > g_band_start graph then next_band graph else graph)
      else
        (case setup_lp ops opts use_coincidence (graph \<lparr> g_src_scc := - 1, g_dst_scc := - 1 \<rparr>) of
           None \<Rightarrow> Inl Failure
         | Some graph1 \<Rightarrow>
             (let solved = solve_lp ops graph1; graph2 = fst solved in
              case snd solved of
                None \<Rightarrow> Inl Failure
              | Some sol \<Rightarrow>
                  if sol = [] then
                    (case lp_infeasible_action use_coincidence force_coincidence
                            (schedule_maximize_band_depth opts) (g_src_scc graph2)
                            (g_n_total_row graph2) (g_band_start graph2) of
                       Retry_without_coincidence \<Rightarrow>
                         run (Call_wcc_loop has_coincidence False force_coincidence check_conditional)
                           graph2
                     | Compute_next_band \<Rightarrow> run Call_compute_next_band graph2
                     | Compute_split_schedule \<Rightarrow> run Call_compute_split_schedule graph2
                     | Carry_dependences \<Rightarrow> run Call_carry_dependences graph2)
                  else
                    (case wcc_add_row ops graph2 has_coincidence use_coincidence check_conditional sol of
                       Inl e \<Rightarrow> Inl e
                     | Inr res \<Rightarrow>
                         run (Call_wcc_loop has_coincidence (snd res) force_coincidence
                                check_conditional) (fst res)))))"

definition compute_next_band_body ::
  "'o sched_run \<Rightarrow> 'o sched_ops \<Rightarrow> 'o isl_sched_graph \<Rightarrow> 'o sched_result" where
  "compute_next_band_body run ops graph =
     (case update_edges ops graph of
        None \<Rightarrow> Inl Failure
      | Some graph1 \<Rightarrow> run Call_compute_schedule (next_band graph1))"

definition compute_split_schedule_body ::
  "'o sched_run \<Rightarrow> 'o isl_sched_graph \<Rightarrow> 'o sched_result" where
  "compute_split_schedule_body run graph =
     (case split_prepare graph of
        Inl e \<Rightarrow> Inl e
      | Inr res \<Rightarrow>
          (let graph1 = fst res;
               n = fst (snd res);
               orig_total_row = g_n_total_row graph1;
               orig_band = g_n_band graph1 in
           case run (Call_compute_sub_schedule n Node_scc_at_most Edge_dst_scc_at_most
                       (g_src_scc graph1) False) graph1 of
             Inl e \<Rightarrow> Inl e
           | Inr graph2 \<Rightarrow>
               (case run (Call_compute_sub_schedule (length (g_node graph2) - n) Node_scc_at_least
                            Edge_src_scc_at_least (g_src_scc graph2 + 1) False)
                       (graph2 \<lparr> g_n_total_row := orig_total_row, g_n_band := orig_band \<rparr>) of
                  Inl e \<Rightarrow> Inl e
                | Inr graph3 \<Rightarrow>
                    Inr (pad_schedule
                           (graph3 \<lparr> g_n_total_row := (if g_n_total_row graph2 > g_n_total_row graph3
                                                        then g_n_total_row graph2
                                                        else g_n_total_row graph3),
                                     g_n_band := (if g_n_band graph2 > g_n_band graph3
                                                  then g_n_band graph2 else g_n_band graph3) \<rparr>)))))"

definition compute_sub_schedule_body ::
  "'o sched_run \<Rightarrow> 'o sched_ops \<Rightarrow> nat \<Rightarrow> node_pred \<Rightarrow> edge_pred \<Rightarrow> int \<Rightarrow> bool
     \<Rightarrow> 'o isl_sched_graph \<Rightarrow> 'o sched_result" where
  "compute_sub_schedule_body run ops n npred epred data wcc graph =
     (case sub_graph ops graph n npred epred data of
        Inl e \<Rightarrow> Inl e
      | Inr split \<Rightarrow>
          (case (if wcc then run Call_compute_schedule_wcc split
                 else run Call_compute_schedule split) of
             Inl e \<Rightarrow> Inl e
           | Inr split1 \<Rightarrow> Inr (copy_schedule graph split1 npred data)))"

definition carry_dependences_body ::
  "'o sched_run \<Rightarrow> 'o sched_ops \<Rightarrow> sched_options \<Rightarrow> 'o isl_sched_graph \<Rightarrow> 'o sched_result" where
  "carry_dependences_body run ops opts graph =
     (case carry_solution ops opts graph of
        Carry_fail e \<Rightarrow> Inl e
      | Carry_components graph1 \<Rightarrow> run Call_compute_component_schedule graph1
      | Carry_row graph1 sol \<Rightarrow>
          (case update_schedule graph1 sol False 0 of
             Inl e \<Rightarrow> Inl e
           | Inr graph2 \<Rightarrow>
               (case split_scaled opts graph2 of
                  Inl e \<Rightarrow> Inl e
                | Inr graph3 \<Rightarrow> run Call_compute_next_band graph3)))"

definition compute_component_schedule_body ::
  "'o sched_run \<Rightarrow> sched_options \<Rightarrow> 'o isl_sched_graph \<Rightarrow> 'o sched_result" where
  "compute_component_schedule_body run opts graph =
     (case component_prepare opts graph of
        Inl e \<Rightarrow> Inl e
      | Inr graph1 \<Rightarrow>
          run (Call_component_loop 0 0 0 (g_n_total_row graph1) (g_n_band graph1)) graph1)"

definition component_loop_body ::
  "'o sched_run \<Rightarrow> int \<Rightarrow> int \<Rightarrow> int \<Rightarrow> int \<Rightarrow> int \<Rightarrow> 'o isl_sched_graph \<Rightarrow> 'o sched_result" where
  "component_loop_body run wcc n_total_row n_band orig_total_row orig_band graph =
     (if wcc < g_scc graph then
        (case run (Call_compute_sub_schedule
                     (length (filter (\<lambda>node. nd_scc node = wcc) (g_node graph)))
                     Node_scc_exactly Edge_scc_exactly wcc True) graph of
           Inl e \<Rightarrow> Inl e
         | Inr graph1 \<Rightarrow>
             run (Call_component_loop (wcc + 1)
                    (if g_n_total_row graph1 > n_total_row then g_n_total_row graph1 else n_total_row)
                    (if g_n_band graph1 > n_band then g_n_band graph1 else n_band)
                    orig_total_row orig_band)
               (graph1 \<lparr> g_n_total_row := orig_total_row, g_n_band := orig_band \<rparr>))
      else Inr (pad_schedule (graph \<lparr> g_n_total_row := n_total_row, g_n_band := n_band \<rparr>)))"

primrec sched_run :: "'o sched_ops \<Rightarrow> sched_options \<Rightarrow> nat \<Rightarrow> 'o sched_run" where
  "sched_run ops opts 0 = (\<lambda>call graph. Inl Out_of_fuel)"
| "sched_run ops opts (Suc k) = (\<lambda>call graph.
     case call of
       Call_compute_schedule \<Rightarrow> compute_schedule_body (sched_run ops opts k) ops opts graph
     | Call_compute_schedule_wcc \<Rightarrow> compute_schedule_wcc_body (sched_run ops opts k) ops opts graph
     | Call_wcc_loop has_coincidence use_coincidence force_coincidence check_conditional \<Rightarrow>
         wcc_loop_body (sched_run ops opts k) ops opts has_coincidence use_coincidence
           force_coincidence check_conditional graph
     | Call_compute_next_band \<Rightarrow> compute_next_band_body (sched_run ops opts k) ops graph
     | Call_compute_split_schedule \<Rightarrow> compute_split_schedule_body (sched_run ops opts k) graph
     | Call_compute_sub_schedule n npred epred data wcc \<Rightarrow>
         compute_sub_schedule_body (sched_run ops opts k) ops n npred epred data wcc graph
     | Call_carry_dependences \<Rightarrow> carry_dependences_body (sched_run ops opts k) ops opts graph
     | Call_compute_component_schedule \<Rightarrow>
         compute_component_schedule_body (sched_run ops opts k) opts graph
     | Call_component_loop wcc n_total_row n_band orig_total_row orig_band \<Rightarrow>
         component_loop_body (sched_run ops opts k) wcc n_total_row n_band orig_total_row
           orig_band graph)"

text \<open>The functions of the driver under their names in the source.\<close>

definition compute_schedule ::
  "'o sched_ops \<Rightarrow> sched_options \<Rightarrow> nat \<Rightarrow> 'o isl_sched_graph \<Rightarrow> 'o sched_result" where
  "compute_schedule ops opts fuel graph = sched_run ops opts fuel Call_compute_schedule graph"

definition carry_dependences ::
  "'o sched_ops \<Rightarrow> sched_options \<Rightarrow> nat \<Rightarrow> 'o isl_sched_graph \<Rightarrow> 'o sched_result" where
  "carry_dependences ops opts fuel graph = sched_run ops opts fuel Call_carry_dependences graph"


definition compute_schedule_wcc ::
  "'o sched_ops \<Rightarrow> sched_options \<Rightarrow> nat \<Rightarrow> 'o isl_sched_graph \<Rightarrow> 'o sched_result" where
  "compute_schedule_wcc ops opts fuel graph = sched_run ops opts fuel Call_compute_schedule_wcc graph"

text \<open>
  The loop of \<open>compute_schedule_wcc\<close>, entered with the given values of the local variables
  \<open>has_coincidence\<close>, \<open>use_coincidence\<close>, \<open>force_coincidence\<close> and \<open>check_conditional\<close>.
\<close>

definition compute_schedule_wcc_loop ::
  "'o sched_ops \<Rightarrow> sched_options \<Rightarrow> nat \<Rightarrow> bool \<Rightarrow> bool \<Rightarrow> bool \<Rightarrow> bool \<Rightarrow> 'o isl_sched_graph
     \<Rightarrow> 'o sched_result" where
  "compute_schedule_wcc_loop ops opts fuel has_coincidence use_coincidence force_coincidence
      check_conditional graph =
     sched_run ops opts fuel
       (Call_wcc_loop has_coincidence use_coincidence force_coincidence check_conditional) graph"

definition compute_next_band ::
  "'o sched_ops \<Rightarrow> sched_options \<Rightarrow> nat \<Rightarrow> 'o isl_sched_graph \<Rightarrow> 'o sched_result" where
  "compute_next_band ops opts fuel graph = sched_run ops opts fuel Call_compute_next_band graph"

definition compute_split_schedule ::
  "'o sched_ops \<Rightarrow> sched_options \<Rightarrow> nat \<Rightarrow> 'o isl_sched_graph \<Rightarrow> 'o sched_result" where
  "compute_split_schedule ops opts fuel graph =
     sched_run ops opts fuel Call_compute_split_schedule graph"

definition compute_sub_schedule ::
  "'o sched_ops \<Rightarrow> sched_options \<Rightarrow> nat \<Rightarrow> 'o isl_sched_graph \<Rightarrow> nat \<Rightarrow> node_pred \<Rightarrow> edge_pred
     \<Rightarrow> int \<Rightarrow> bool \<Rightarrow> 'o sched_result" where
  "compute_sub_schedule ops opts fuel graph n npred epred data wcc =
     sched_run ops opts fuel (Call_compute_sub_schedule n npred epred data wcc) graph"

text \<open>
  \<open>extract_node\<close> and \<open>compute_max_row\<close>: the node of a set of the domain, with an empty
  schedule of \<open>1 + nparam + nvar\<close> columns and band arrays of \<open>max_row\<close> entries.
\<close>

definition compute_max_row :: "isl_space list \<Rightarrow> nat" where
  "compute_max_row domain = length domain + 2 * foldl (\<lambda>m space. if sp_nvar space > m then sp_nvar space else m) 0 domain"

definition extract_node :: "sched_options \<Rightarrow> nat \<Rightarrow> isl_space \<Rightarrow> isl_sched_node" where
  "extract_node opts max_row space =
     (let nvar = sp_nvar space;
          nparam = (if schedule_parametric opts then sp_nparam space else 0) in
      \<lparr> nd_dim = space, nd_sched = isl_mat_alloc 0 (1 + nparam + nvar), nd_rank = 0,
        nd_cmap = isl_mat_alloc 0 0, nd_cinv = isl_mat_alloc 0 0, nd_start = 0,
        nd_nvar = nvar, nd_nparam = nparam, nd_scc = 0,
        nd_band = replicate max_row 0, nd_band_id = replicate max_row 0,
        nd_coincident = replicate max_row 0 \<rparr>)"

text \<open>
  The graph that \<open>isl_schedule_constraints_compute_schedule\<close> hands to \<open>compute_schedule\<close>.
  The edges and their tables are built by \<open>extract_edge\<close> from the constraints with
  operations of the collaborators on relations; they are arguments here.
\<close>

definition initial_graph ::
  "sched_options \<Rightarrow> isl_space list \<Rightarrow> 'o isl_sched_edge list
     \<Rightarrow> ((isl_edge_type \<times> nat \<times> nat) \<times> nat) list \<Rightarrow> 'o isl_sched_graph" where
  "initial_graph opts domain edges table =
     \<lparr> g_node = map (extract_node opts (compute_max_row domain)) domain,
       g_maxvar = foldl (\<lambda>m space. if int (sp_nvar space) > m then int (sp_nvar space) else m) 0 domain,
       g_max_row = int (compute_max_row domain), g_n_row = 0,
       g_sorted = [0 ..< length domain], g_n_band = 0, g_n_total_row = 0, g_band_start = 0,
       g_root = True, g_edge = edges, g_edge_table = table,
       g_lp = \<lparr> lp_total = 0, lp_rational = False, lp_eq = [], lp_ineq = [] \<rparr>,
       g_src_scc = 0, g_dst_scc = 0, g_scc = 0 \<rparr>"

definition isl_schedule_constraints_compute_schedule ::
  "'o sched_ops \<Rightarrow> sched_options \<Rightarrow> nat \<Rightarrow> isl_space list \<Rightarrow> 'o isl_sched_edge list
     \<Rightarrow> ((isl_edge_type \<times> nat \<times> nat) \<times> nat) list \<Rightarrow> sched_error + isl_schedule" where
  "isl_schedule_constraints_compute_schedule ops opts fuel domain edges table =
     (if domain = [] then Inr (extract_schedule (initial_graph opts [] ([] :: 'o isl_sched_edge list) []))
      else
        (case compute_schedule ops opts fuel (initial_graph opts domain edges table) of
           Inl e \<Rightarrow> Inl e
         | Inr graph \<Rightarrow> Inr (extract_schedule graph)))"

section \<open>Scheduler: points of an LP problem\<close>

text \<open>
  A point of an LP problem is a vector the way the solvers return it: the common denominator
  first, then the numerators of the variables. It satisfies a constraint when the value of
  the row on it is zero (an equality) or non-negative (an inequality); the variables are
  non-negative. \<open>carry_slack_sum\<close> is the sum of the numerators of the slack variables
  \<open>e_i\<close> of the carry LP.
\<close>

definition lp_row_value :: "row \<Rightarrow> int list \<Rightarrow> int" where
  "lp_row_value r y = sum_list (map (\<lambda>(a, b). a * b) (zip r y))"

definition lp_point :: "isl_lp \<Rightarrow> int list \<Rightarrow> bool" where
  "lp_point lp y =
     (length y = 1 + lp_total lp \<and> y ! 0 > 0 \<and> list_all (\<lambda>v. v \<ge> 0) (tl y) \<and>
      list_all (\<lambda>r. lp_row_value r y = 0) (lp_eq lp) \<and>
      list_all (\<lambda>r. lp_row_value r y \<ge> 0) (lp_ineq lp))"


text \<open>An LP problem that keeps the variables of another one and starts with its constraints.\<close>

definition lp_extends :: "isl_lp \<Rightarrow> isl_lp \<Rightarrow> bool" where
  "lp_extends lp lp' =
     (lp_total lp' = lp_total lp \<and> lp_rational lp' = lp_rational lp \<and>
      take (length (lp_eq lp)) (lp_eq lp') = lp_eq lp \<and>
      take (length (lp_ineq lp)) (lp_ineq lp') = lp_ineq lp)"

section \<open>Scheduler: the rows that tie a slack variable to a dependence\<close>








section \<open>Concrete collaborators for the examples\<close>

text \<open>
  A family of collaborators in which every tableau operation succeeds and leaves the tableau
  as it is, Gauss and the other operations on basic maps are the identity, and wrapping is
  not available. The classification of a row and the construction of a tableau are parameters.
\<close>

definition simple_ops ::
  "('tab \<Rightarrow> row \<Rightarrow> isl_ineq_type) \<Rightarrow> (isl_basic_map \<Rightarrow> 'tab option) \<Rightarrow> 'tab isl_ops" where
  "simple_ops ineq_type from_basic_map =
    \<lparr> isl_tab_ineq_type = ineq_type,
      isl_tab_is_redundant = (\<lambda>t k. False),
      isl_tab_is_equality = (\<lambda>t k. False),
      isl_tab_empty = (\<lambda>t. False),
      isl_tab_mark_rational = Some,
      isl_tab_select_facet = (\<lambda>t k. Some t),
      isl_tab_rollback = (\<lambda>t snap. Some snap),
      isl_tab_extend_cons = (\<lambda>t n. Some t),
      isl_tab_unrestrict = (\<lambda>t k. Some t),
      isl_tab_relax = (\<lambda>t k. Some t),
      isl_tab_add_ineq = (\<lambda>t r. Some t),
      isl_tab_add_eq = (\<lambda>t r. Some t),
      isl_tab_detect_redundant = Some,
      isl_tab_detect_implicit_equalities = Some,
      isl_tab_from_basic_map = from_basic_map,
      isl_tab_make_equalities_explicit = (\<lambda>t bmap. Some (bmap, t)),
      isl_basic_map_update_from_tab = (\<lambda>bmap t. Some bmap),
      isl_basic_map_underlying_set = (\<lambda>bmap. bmap),
      isl_basic_map_detect_inequality_pairs = (\<lambda>bmap. bmap),
      isl_basic_map_gauss = (\<lambda>bmap. bmap),
      isl_basic_map_finalize = Some,
      isl_set_wrap_facet = (\<lambda>s facet ridge. None),
      isl_basic_map_divs_known = (\<lambda>bmap. Some True),
      isl_merge_divs = (\<lambda>d1 d2. None),
      isl_basic_set_expand_divs = (\<lambda>bmap d e. None),
      isl_map_remove_empty_parts = Some,
      isl_map_sort_divs = Some,
      coalesce_bounded_wrapping = False \<rparr>"

text \<open>
  A tableau for a non-empty bounded interval \<open>{x. lo \<le> x \<le> hi}\<close> of the integer line, whose
  basic map consists of inequalities \<open>[c, 1]\<close> (that is \<open>x \<ge> - c\<close>) and \<open>[c, - 1]\<close> (that is
  \<open>x \<le> c\<close>). A row \<open>[c, a]\<close> is classified by the values of \<open>c + a * x\<close> at the two ends.
\<close>

definition interval_ineq_type :: "int \<times> int \<Rightarrow> row \<Rightarrow> isl_ineq_type" where
  "interval_ineq_type t r =
    (case r of
       [c, a] \<Rightarrow>
         (let v1 = c + a * fst t; v2 = c + a * snd t in
          if min v1 v2 \<ge> 0 then isl_ineq_redundant
          else if max v1 v2 < - 1 then isl_ineq_separate
          else if max v1 v2 = - 1 then isl_ineq_adj_ineq
          else isl_ineq_cut)
     | _ \<Rightarrow> isl_ineq_error)"

definition interval_from_basic_map :: "isl_basic_map \<Rightarrow> (int \<times> int) option" where
  "interval_from_basic_map bmap =
    (case (map (\<lambda>r. - hd r) (filter (\<lambda>r. r ! 1 = 1) (bm_ineq bmap)),
           map hd (filter (\<lambda>r. r ! 1 = - 1) (bm_ineq bmap))) of
       (l # ls, u # us) \<Rightarrow> Some (foldl max l ls, foldl min u us)
     | _ \<Rightarrow> None)"

definition interval_ops :: "(int \<times> int) isl_ops" where
  "interval_ops = simple_ops interval_ineq_type interval_from_basic_map"

definition interval_bmap :: "bool \<Rightarrow> int \<Rightarrow> int \<Rightarrow> isl_basic_map" where
  "interval_bmap rational lo hi =
    \<lparr> bm_dim = 1, bm_div = [], bm_eq = [], bm_ineq = [[- lo, 1], [hi, - 1]],
      bm_final = False, bm_rational = rational, bm_no_implicit = False, bm_no_redundant = False \<rparr>"

text \<open>
  A tableau that is a flag: with the flag set every row is classified redundant, otherwise
  every row is classified adjacent to an equality.
\<close>

definition adj_eq_ops :: "bool isl_ops" where
  "adj_eq_ops =
    simple_ops (\<lambda>t r. if t then isl_ineq_redundant else isl_ineq_adj_eq) (\<lambda>bmap. Some True)"

text \<open>
  The valid constraints of a basic map, in the words of the specification: the rows whose
  status is valid. \<open>adj_ineq_fused\<close> is the basic map "consisting of the valid constraints
  of both", with all equalities of both, after Gauss, marked final, and rational only if both
  sources are.
\<close>

definition valid_rows :: "status list \<Rightarrow> row list \<Rightarrow> row list" where
  "valid_rows con rows = map fst (filter (\<lambda>(r, s). s = STATUS_VALID) (zip rows con))"

definition adj_ineq_fused ::
  "('tab, 'x) isl_ops_scheme \<Rightarrow> isl_basic_map \<Rightarrow> isl_basic_map \<Rightarrow> status list \<Rightarrow> status list \<Rightarrow>
   isl_basic_map" where
  "adj_ineq_fused ops bi bj ineq_i ineq_j =
    (let g = isl_basic_map_gauss ops
               \<lparr> bm_dim = bm_dim bi, bm_div = bm_div bi,
                 bm_eq = bm_eq bi @ bm_eq bj,
                 bm_ineq = valid_rows ineq_i (bm_ineq bi) @ valid_rows ineq_j (bm_ineq bj),
                 bm_final = False, bm_rational = False,
                 bm_no_implicit = False, bm_no_redundant = False \<rparr>
     in if bm_rational bi \<and> bm_rational bj
        then g \<lparr> bm_final := True, bm_rational := True \<rparr>
        else g \<lparr> bm_final := True \<rparr>)"

section \<open>Wrapping: the computed wraps and the cap, as the specification describes them\<close>

text \<open>
  The wrapped constraints \<open>add_wraps\<close> computes, in order, when none of them stops it: one
  per inequality that is not skipped, two per equality that is not skipped. \<open>None\<close> stands for
  a failure of \<open>isl_set_wrap_facet\<close>.
\<close>

definition computed_wraps ::
  "('tab, 'x) isl_ops_scheme \<Rightarrow> isl_basic_map \<Rightarrow> 'tab \<Rightarrow> row \<Rightarrow> isl_basic_map list \<Rightarrow>
   row option list" where
  "computed_wraps ops bmap tab bound sset =
     map (\<lambda>l. isl_set_wrap_facet ops sset bound (bm_ineq bmap ! l))
       (filter (\<lambda>l. \<not> isl_seq_is_neg bound (bm_ineq bmap ! l)
                   \<and> \<not> isl_seq_eq bound (bm_ineq bmap ! l)
                   \<and> \<not> isl_tab_is_redundant ops tab (length (bm_eq bmap) + l))
          [0 ..< length (bm_ineq bmap)])
     @ concat (map (\<lambda>l. [isl_set_wrap_facet ops sset bound (isl_seq_neg (bm_eq bmap ! l)),
                          isl_set_wrap_facet ops sset bound (bm_eq bmap ! l)])
          (filter (\<lambda>l. \<not> isl_seq_is_neg bound (bm_eq bmap ! l)
                      \<and> \<not> isl_seq_eq bound (bm_eq bmap ! l))
             [0 ..< length (bm_eq bmap)]))"

text \<open>
  The coefficients (constant term excluded) of the constraints of a basic map that are
  neither valid nor redundant: an equality counts unless both its entries are valid.
\<close>

definition non_valid_coefficients :: "isl_basic_map \<Rightarrow> status list \<Rightarrow> status list \<Rightarrow> int set" where
  "non_valid_coefficients bmap eq ineq =
     (\<Union>k \<in> set (filter (\<lambda>k. \<not> (eq ! (2 * k) = STATUS_VALID \<and> eq ! (2 * k + 1) = STATUS_VALID))
                   [0 ..< length (bm_eq bmap)]). set (tl (bm_eq bmap ! k)))
     \<union> (\<Union>k \<in> set (filter (\<lambda>k. ineq ! k \<noteq> STATUS_VALID \<and> ineq ! k \<noteq> STATUS_REDUNDANT)
                   [0 ..< length (bm_ineq bmap)]). set (tl (bm_ineq bmap ! k)))"

text \<open>The same for all the constraints \<open>fuse\<close> leaves out: redundant inequalities included.\<close>

definition dropped_coefficients :: "isl_basic_map \<Rightarrow> status list \<Rightarrow> status list \<Rightarrow> int set" where
  "dropped_coefficients bmap eq ineq =
     (\<Union>k \<in> set (filter (\<lambda>k. \<not> (eq ! (2 * k) = STATUS_VALID \<and> eq ! (2 * k + 1) = STATUS_VALID))
                   [0 ..< length (bm_eq bmap)]). set (tl (bm_eq bmap ! k)))
     \<union> (\<Union>k \<in> set (filter (\<lambda>k. ineq ! k \<noteq> STATUS_VALID)
                   [0 ..< length (bm_ineq bmap)]). set (tl (bm_ineq bmap ! k)))"

text \<open>
  Collaborators with a wrapping operation, for the examples: the wrapped row is the ridge,
  except that a ridge with constant term zero gives back the facet unchanged. The bound on
  the coefficients is active.
\<close>

definition wrap_ops :: "unit isl_ops" where
  "wrap_ops =
    (simple_ops (\<lambda>t r. isl_ineq_cut) (\<lambda>bmap. Some ()))
      \<lparr> isl_set_wrap_facet := (\<lambda>s facet ridge. Some (if hd ridge = 0 then facet else ridge)),
        coalesce_bounded_wrapping := True \<rparr>"

definition wrap_bmap :: "row list \<Rightarrow> isl_basic_map" where
  "wrap_bmap rows =
    \<lparr> bm_dim = 1, bm_div = [], bm_eq = [], bm_ineq = rows,
      bm_final = False, bm_rational = False, bm_no_implicit = False, bm_no_redundant = False \<rparr>"

text \<open>
  What \<open>add_wraps\<close> does with a sequence of computed wraps: a failure is an error, a row equal
  to the bound or beyond the cap discards the set, any other row is appended.
\<close>

fun take_wraps :: "isl_wraps \<Rightarrow> row \<Rightarrow> row list \<Rightarrow> row option list \<Rightarrow> wrap_result" where
  "take_wraps wraps bound mat [] = Wrap_rows mat"
| "take_wraps wraps bound mat (None # rest) = Wrap_error"
| "take_wraps wraps bound mat (Some r # rest) =
    (if isl_seq_eq r bound then Wrap_unbounded
     else if \<not> allow_wrap wraps r then Wrap_unbounded
     else take_wraps wraps bound (mat @ [r]) rest)"

section \<open>Scheduler: the number of rows of the schedules\<close>

text \<open>
  The number of rows of the schedule of a node, and the graphs in which every node has
  \<open>graph->n_total_row\<close> rows. \<open>rows_frame\<close> and \<open>same_nodes\<close> relate a graph to one that an operation
  has left with the same schedules. \<open>inv_le\<close> and \<open>inv_eq\<close> are what the functions of the driver
  expect of the graph they are given, \<open>rows_post\<close> what they return; \<open>pre_sub\<close>, \<open>post_sub\<close> and
  \<open>pre_loop\<close> are the same for \<open>compute_sub_schedule\<close>, which only touches the nodes of the
  subgraph, and for the loop of \<open>compute_component_schedule\<close>.
\<close>

definition node_rows :: "isl_sched_node \<Rightarrow> int" where
  "node_rows node = isl_mat_rows (nd_sched node)"

definition uniform_rows :: "'o isl_sched_graph \<Rightarrow> bool" where
  "uniform_rows graph = list_all (\<lambda>node. node_rows node = g_n_total_row graph) (g_node graph)"

definition rows_shape :: "'o isl_sched_graph \<Rightarrow> int list \<times> int \<times> int" where
  "rows_shape graph = (map node_rows (g_node graph), g_n_total_row graph, g_band_start graph)"

definition rows_frame :: "'o isl_sched_graph \<Rightarrow> 'o isl_sched_graph \<Rightarrow> bool" where
  "rows_frame g g' = (map nd_sched (g_node g') = map nd_sched (g_node g) \<and>
                 g_n_total_row g' = g_n_total_row g \<and> g_band_start g' = g_band_start g)"

definition same_nodes :: "'o isl_sched_graph \<Rightarrow> 'o isl_sched_graph \<Rightarrow> bool" where
  "same_nodes g g' = (g_node g' = g_node g \<and> g_n_total_row g' = g_n_total_row g \<and>
                      g_band_start g' = g_band_start g \<and> g_scc g' = g_scc g)"

definition inv_le :: "'o isl_sched_graph \<Rightarrow> bool" where
  "inv_le g = (uniform_rows g \<and> 0 \<le> g_band_start g \<and> g_band_start g \<le> g_n_total_row g)"

definition inv_eq :: "'o isl_sched_graph \<Rightarrow> bool" where
  "inv_eq g = (uniform_rows g \<and> 0 \<le> g_band_start g \<and> g_band_start g = g_n_total_row g)"

definition rows_post :: "'o isl_sched_graph \<Rightarrow> 'o isl_sched_graph \<Rightarrow> bool" where
  "rows_post g g' = (uniform_rows g' \<and> g_band_start g \<le> g_n_total_row g' \<and>
                length (g_node g') = length (g_node g))"

definition sub_rel :: "node_pred \<Rightarrow> int \<Rightarrow> int \<Rightarrow> isl_sched_node \<Rightarrow> isl_sched_node \<Rightarrow> bool" where
  "sub_rel npred data t d d' =
     (nd_scc d' = nd_scc d \<and>
      (if node_pred_holds npred d data then node_rows d' = t else node_rows d' = node_rows d))"

definition pre_sub :: "node_pred \<Rightarrow> int \<Rightarrow> 'o isl_sched_graph \<Rightarrow> bool" where
  "pre_sub npred data g =
     (0 \<le> g_band_start g \<and> g_band_start g = g_n_total_row g \<and>
      list_all (\<lambda>node. node_pred_holds npred node data \<longrightarrow> node_rows node = g_n_total_row g) (g_node g))"

definition post_sub :: "node_pred \<Rightarrow> int \<Rightarrow> 'o isl_sched_graph \<Rightarrow> 'o isl_sched_graph \<Rightarrow> bool" where
  "post_sub npred data g g' =
     (list_all2 (sub_rel npred data (g_n_total_row g')) (g_node g) (g_node g') \<and>
      g_band_start g \<le> g_n_total_row g' \<and> g_band_start g' = g_band_start g \<and>
      g_scc g' = g_scc g \<and> g_src_scc g' = g_src_scc g)"

definition pre_loop :: "int \<Rightarrow> int \<Rightarrow> int \<Rightarrow> 'o isl_sched_graph \<Rightarrow> bool" where
  "pre_loop wcc n orig g =
     (0 \<le> orig \<and> g_band_start g = orig \<and> g_n_total_row g = orig \<and>
      list_all (\<lambda>node. node_rows node = orig \<or>
                        (nd_scc node < wcc \<and> orig \<le> node_rows node \<and> node_rows node \<le> n))
        (g_node g) \<and>
      (wcc < g_scc g \<or> orig \<le> n))"

fun call_pre :: "sched_call \<Rightarrow> 'o isl_sched_graph \<Rightarrow> bool" where
  "call_pre Call_compute_schedule g = inv_eq g"
| "call_pre Call_compute_schedule_wcc g = inv_eq g"
| "call_pre (Call_wcc_loop hc uc fc cc) g = inv_le g"
| "call_pre Call_compute_next_band g = inv_le g"
| "call_pre Call_compute_split_schedule g = inv_le g"
| "call_pre (Call_compute_sub_schedule n npred epred data wcc) g = pre_sub npred data g"
| "call_pre Call_carry_dependences g = inv_eq g"
| "call_pre Call_compute_component_schedule g = (inv_eq g \<and> 1 \<le> g_scc g)"
| "call_pre (Call_component_loop wcc n nb orig ob) g = pre_loop wcc n orig g"

fun call_post :: "sched_call \<Rightarrow> 'o isl_sched_graph \<Rightarrow> 'o isl_sched_graph \<Rightarrow> bool" where
  "call_post (Call_compute_sub_schedule n npred epred data wcc) g g' = post_sub npred data g g'"
| "call_post Call_compute_schedule g g' = rows_post g g'"
| "call_post Call_compute_schedule_wcc g g' = rows_post g g'"
| "call_post (Call_wcc_loop hc uc fc cc) g g' = rows_post g g'"
| "call_post Call_compute_next_band g g' = rows_post g g'"
| "call_post Call_compute_split_schedule g g' = rows_post g g'"
| "call_post Call_carry_dependences g g' = rows_post g g'"
| "call_post Call_compute_component_schedule g g' = rows_post g g'"
| "call_post (Call_component_loop wcc n nb orig ob) g g' = rows_post g g'"

definition run_ok :: "'o sched_run \<Rightarrow> bool" where
  "run_ok run = (\<forall>call g g'. run call g = Inr g' \<longrightarrow> call_pre call g \<longrightarrow> call_post call g g')"

section \<open>Scheduler: collaborators and a graph for the examples\<close>

text \<open>
  Collaborators that fail everywhere, to be overridden where an example needs them, and the
  default options.
\<close>

definition null_sched_ops :: "unit sched_ops" where
  "null_sched_ops =
     \<lparr> isl_tarjan_order = (\<lambda>n follows. None),
       isl_mat_left_hermite = (\<lambda>H. None),
       isl_mat_initial_non_zero_cols = (\<lambda>H. 0),
       isl_tab_basic_set_non_trivial_lexmin = (\<lambda>lp region. (None, [])),
       isl_tab_basic_set_non_neg_lexmin = (\<lambda>lp. None),
       validity_constraints = (\<lambda>graph e. None),
       proximity_constraints = (\<lambda>graph e s local. None),
       intra_coefficients = (\<lambda>m j. None),
       inter_coefficients = (\<lambda>m j. None),
       isl_map_n = (\<lambda>m. 0),
       isl_map_plain_is_empty = (\<lambda>m. None),
       isl_map_is_empty = (\<lambda>m. None),
       isl_map_is_subset = (\<lambda>a b. None),
       isl_map_intersect = (\<lambda>a b. None),
       isl_map_apply_domain = (\<lambda>a b. ()),
       isl_map_apply_range = (\<lambda>a b. ()),
       isl_map_reverse = (\<lambda>a. ()),
       isl_map_order_gt = (\<lambda>a. ()),
       isl_map_identity_like = (\<lambda>a. ()),
       isl_map_wrap = (\<lambda>a. ()),
       isl_map_from_sched = (\<lambda>node. ()),
       isl_map_from_sched_row = (\<lambda>node row. ()),
       isl_map_from_union_map = (\<lambda>a. ()),
       isl_union_map_zip = (\<lambda>a. ()),
       isl_union_map_domain = (\<lambda>a. ()),
       isl_union_map_range = (\<lambda>a. ()),
       isl_union_map_intersect_domain = (\<lambda>a b. None),
       isl_union_map_intersect_range = (\<lambda>a b. None),
       isl_union_map_is_empty = (\<lambda>a. None),
       isl_union_set_empty = (),
       isl_union_set_union = (\<lambda>a b. ()),
       isl_union_set_coalesce = (\<lambda>a. ()),
       isl_union_set_unwrap = (\<lambda>a. ()),
       isl_union_set_from_set = (\<lambda>a. ()) \<rparr>"

definition default_options :: sched_options where
  "default_options =
     \<lparr> schedule_parametric = True, schedule_max_coefficient = - 1,
       schedule_max_constant_term = - 1, schedule_outer_coincidence = False,
       schedule_maximize_band_depth = False, schedule_algorithm_feautrier = False,
       schedule_fuse_min = False, schedule_separate_components = False,
       schedule_split_scaled = True \<rparr>"

text \<open>
  Examples for the carry LP. A dependence relation is a number: \<open>0\<close> is \<open>{S[x] -> S[x]}\<close>,
  \<open>1\<close> is \<open>{S[x] -> S[x + 1]}\<close> and \<open>2\<close> is \<open>{S[x] -> T[x]}\<close>, each of one basic map. The
  coefficients \<open>(c_0, c_x)\<close> of the constraints valid on the differences \<open>y - x\<close> are those
  with \<open>c_0 \<ge> 0\<close> for relation \<open>0\<close> and those with \<open>c_0 + c_x \<ge> 0\<close> for relation \<open>1\<close>; the
  coefficients \<open>(c_0, c_x, c_y)\<close> of the constraints valid on relation \<open>2\<close> are those with
  \<open>c_x + c_y = 0\<close> and \<open>c_0 \<ge> 0\<close>. The solver returns the first of two vectors that is a
  point of the problem; each is the lexicographic minimum of the carry LP of its example.
  The nodes have one set dimension, no parameter, no schedule row yet, and the identity as
  \<open>cmap\<close> and \<open>cinv\<close>.

  Example \<open>a\<close>: one statement with a validity dependence of relation \<open>0\<close> and a proximity
  dependence of relation \<open>1\<close>. Example \<open>b\<close>: two statements, each a component of its own,
  with a validity dependence of relation \<open>2\<close> from the first to the second. The graphs
  \<open>carry_example_lp_graph_a\<close> and \<open>carry_example_lp_graph_b\<close> are the results of
  \<open>setup_carry_lp\<close>.
\<close>

definition carry_example_sol_a :: "int list" where
  "carry_example_sol_a = [1, 1, 0, 0, 0, 1, 0, 0, 0]"

definition carry_example_sol_b :: "int list" where
  "carry_example_sol_b = [1, 0, 0, 0, 1, 0, 0, 0, 1, 0, 0]"

definition carry_example_ops :: "nat sched_ops" where
  "carry_example_ops =
     \<lparr> isl_tarjan_order = (\<lambda>n follows. None),
       isl_mat_left_hermite = (\<lambda>H. None),
       isl_mat_initial_non_zero_cols = (\<lambda>H. 0),
       isl_tab_basic_set_non_trivial_lexmin = (\<lambda>lp region. (None, [])),
       isl_tab_basic_set_non_neg_lexmin =
         (\<lambda>lp. find (lp_point lp) [carry_example_sol_a, carry_example_sol_b]),
       validity_constraints = (\<lambda>graph e. None),
       proximity_constraints = (\<lambda>graph e s local. None),
       intra_coefficients =
         (\<lambda>m j. if m = 0 then Some \<lparr> cf_dim = 1, cf_eq = [], cf_ineq = [[0, 1, 0]] \<rparr>
                else if m = 1 then Some \<lparr> cf_dim = 1, cf_eq = [], cf_ineq = [[0, 1, 1]] \<rparr>
                else None),
       inter_coefficients =
         (\<lambda>m j. if m = 2 then Some \<lparr> cf_dim = 1, cf_eq = [[0, 0, 1, 1]], cf_ineq = [[0, 1, 0, 0]] \<rparr>
                else None),
       isl_map_n = (\<lambda>m. 1),
       isl_map_plain_is_empty = (\<lambda>m. Some False),
       isl_map_is_empty = (\<lambda>m. Some False),
       isl_map_is_subset = (\<lambda>a b. None),
       isl_map_intersect = (\<lambda>a b. None),
       isl_map_apply_domain = (\<lambda>a b. a),
       isl_map_apply_range = (\<lambda>a b. a),
       isl_map_reverse = (\<lambda>a. a),
       isl_map_order_gt = (\<lambda>a. a),
       isl_map_identity_like = (\<lambda>a. a),
       isl_map_wrap = (\<lambda>a. a),
       isl_map_from_sched = (\<lambda>node. 0),
       isl_map_from_sched_row = (\<lambda>node row. 0),
       isl_map_from_union_map = (\<lambda>a. a),
       isl_union_map_zip = (\<lambda>a. a),
       isl_union_map_domain = (\<lambda>a. a),
       isl_union_map_range = (\<lambda>a. a),
       isl_union_map_intersect_domain = (\<lambda>a b. None),
       isl_union_map_intersect_range = (\<lambda>a b. None),
       isl_union_map_is_empty = (\<lambda>a. None),
       isl_union_set_empty = 0,
       isl_union_set_union = (\<lambda>a b. a),
       isl_union_set_coalesce = (\<lambda>a. a),
       isl_union_set_unwrap = (\<lambda>a. a),
       isl_union_set_from_set = (\<lambda>a. a) \<rparr>"









text \<open>
  An example for the loop of \<open>compute_schedule_wcc\<close>: one statement of one dimension with a
  coincidence dependence of relation \<open>1\<close>, \<open>{S[x] -> S[x + 1]}\<close>, and nothing else. Tarjan's
  algorithm puts every node in a component of its own; the Hermite normal form of a matrix
  without rows comes with the identity as both transformations. The LP of a band has the
  variables \<open>c_x-\<close> and \<open>c_x+\<close> of the statement at positions 6 and 7 of a row: the dual of
  the relation contributes \<open>c_x \<ge> 0\<close> as validity constraint and \<open>-c_x \<ge> 0\<close> as the
  constraint that bounds the distance of a local dependence by zero. The solver returns the
  vector with \<open>c_x = 1\<close> when it is a point of the problem that is not zero on the regions,
  and the empty vector otherwise. \<open>coincidence_example_band\<close> is the graph when the loop is
  entered, \<open>coincidence_example_lp_graph\<close> the graph after \<open>setup_lp\<close> with the coincidence
  constraints, and \<open>coincidence_example_result\<close> the graph that is returned.
\<close>

definition isl_mat_identity :: "nat \<Rightarrow> isl_mat" where
  "isl_mat_identity n = \<lparr> m_n_col = n, m_rows = map (\<lambda>i. (replicate n 0)[i := 1]) [0 ..< n] \<rparr>"

definition lp_non_trivial :: "(nat \<times> nat) list \<Rightarrow> int list \<Rightarrow> bool" where
  "lp_non_trivial region y =
     list_all (\<lambda>(pos, len). len = 0 \<or> list_ex (\<lambda>i. y ! (1 + pos + i) \<noteq> 0) [0 ..< len]) region"

definition coincidence_example_ops :: "nat sched_ops" where
  "coincidence_example_ops =
     carry_example_ops
       \<lparr> isl_tarjan_order := (\<lambda>n follows. Some (concat (map (\<lambda>i. [int i, - 1]) [0 ..< n]))),
         isl_mat_left_hermite :=
           (\<lambda>H. if m_rows H = [] then Some (H, isl_mat_identity (m_n_col H), isl_mat_identity (m_n_col H))
                 else None),
         isl_tab_basic_set_non_trivial_lexmin :=
           (\<lambda>lp region.
              case find (\<lambda>y. lp_point lp y \<and> lp_non_trivial region y) [[1, 0, 0, 0, 1, 0, 0, 1]] of
                None \<Rightarrow> (Some [], [])
              | Some y \<Rightarrow> (Some y, [])),
         isl_tab_basic_set_non_neg_lexmin :=
           (\<lambda>lp. find (lp_point lp) [[1, 0, 0, 0, 1, 0, 0, 0]]),
         validity_constraints :=
           (\<lambda>graph e. Some ([], [lp_row (lp_total (g_lp graph)) [(6, - 1), (7, 1)]])),
         proximity_constraints :=
           (\<lambda>graph e s local. Some ([], [lp_row (lp_total (g_lp graph)) [(6, 1), (7, - 1)]])) \<rparr>"

definition coincidence_example_edge :: "nat isl_sched_edge" where
  "coincidence_example_edge =
     \<lparr> ed_map = 1, ed_tagged_condition = None, ed_tagged_validity = None, ed_src = 0,
       ed_dst = 0, ed_validity = False, ed_coincidence = True, ed_proximity = False,
       ed_local = False, ed_condition = False, ed_conditional_validity = False,
       ed_start = 0, ed_end = 0 \<rparr>"

definition coincidence_example_graph :: "nat isl_sched_graph" where
  "coincidence_example_graph =
     initial_graph default_options [\<lparr> sp_id = 0, sp_nparam = 0, sp_nvar = 1 \<rparr>]
       [coincidence_example_edge] [((isl_edge_coincidence, 0, 0), 0)]"

definition coincidence_example_band :: "nat isl_sched_graph" where
  "coincidence_example_band =
     coincidence_example_graph
       \<lparr> g_node := map (\<lambda>node. node \<lparr> nd_cmap := isl_mat_identity 1, nd_cinv := isl_mat_identity 1 \<rparr>)
                      (g_node coincidence_example_graph),
         g_maxvar := 1, g_scc := 1 \<rparr>"

definition coincidence_example_lp_graph :: "nat isl_sched_graph" where
  "coincidence_example_lp_graph =
     coincidence_example_band
       \<lparr> g_node := map (\<lambda>node. node \<lparr> nd_start := 4 \<rparr>) (g_node coincidence_example_band),
         g_lp := \<lparr> lp_total = 7, lp_rational = False,
                   lp_eq = [[0, - 1, 0, 0, 0, 0, 0, 0], [0, 0, 0, - 1, 0, 0, 0, 0],
                            [0, 0, 0, 0, - 1, 0, 1, 1]],
                   lp_ineq = [[0, 0, 0, 0, 0, 0, - 1, 1], [0, 0, 0, 0, 0, 0, 1, - 1]] \<rparr>,
         g_src_scc := - 1, g_dst_scc := - 1 \<rparr>"

definition coincidence_example_result :: "nat isl_sched_graph" where
  "coincidence_example_result =
     coincidence_example_lp_graph
       \<lparr> g_node := map (\<lambda>node. node \<lparr> nd_sched := \<lparr> m_n_col = 2, m_rows = [[0, 1]] \<rparr> \<rparr>)
                      (g_node coincidence_example_lp_graph),
         g_n_row := 1, g_n_band := 1, g_n_total_row := 1, g_band_start := 1,
         g_lp := (g_lp coincidence_example_lp_graph) \<lparr> lp_ineq := [] \<rparr> \<rparr>"

text \<open>
  Two statements of one and of two dimensions without dependences: Tarjan's algorithm puts
  every node in a component of its own, the Hermite normal form is not computed, and the
  solver returns the vector of ones.
\<close>

definition sched_example_ops :: "unit sched_ops" where
  "sched_example_ops =
     null_sched_ops
       \<lparr> isl_tarjan_order := (\<lambda>n follows. Some (concat (map (\<lambda>i. [int i, - 1]) [0 ..< n]))),
         isl_mat_left_hermite := (\<lambda>H. Some (H, H, H)),
         isl_tab_basic_set_non_trivial_lexmin :=
           (\<lambda>lp region. (Some (replicate (1 + lp_total lp) 1), [])) \<rparr>"

definition sched_example_domain :: "isl_space list" where
  "sched_example_domain =
     [\<lparr> sp_id = 0, sp_nparam = 0, sp_nvar = 1 \<rparr>, \<lparr> sp_id = 1, sp_nparam = 0, sp_nvar = 2 \<rparr>]"

definition sched_example :: isl_schedule where
  "sched_example =
     \<lparr> s_n_band = 1, s_n_total_row = 2,
       s_node = [\<lparr> sn_sched = [[1, 0], [0, 0]], sn_n_band = 1, sn_band_end = [1],
                   sn_band_id = [0], sn_coincident = [1, 0] \<rparr>,
                 \<lparr> sn_sched = [[1, 0, 0], [1, 0, 0]], sn_n_band = 1, sn_band_end = [2],
                   sn_band_id = [1], sn_coincident = [1, 1] \<rparr>] \<rparr>"

declare coalesce_inner.simps [simp del]

lemma coalesce_inner_total: "coalesce_inner_dom (ops, st, i, j)"
proof (induction ops st i j rule: coalesce_inner.induct)
  case (1 ops st i j)
  show ?case
    by (rule coalesce_inner.domintros) (use 1 in auto)
qed

section \<open>Coalescing: number of basic maps and termination\<close>

lemma length_eq_status_loop:
  "eq_status_loop ops eqs tab = Some con \<Longrightarrow> length con = 2 * length eqs"
  by (induction eqs arbitrary: con) (auto simp: Let_def split: if_splits option.splits)

lemma length_ineq_status_loop:
  "ineq_status_loop ops n_eq tab_i tab_j k rows = Some con \<Longrightarrow> length con = length rows"
  by (induction rows arbitrary: con k) (auto simp: Let_def split: if_splits option.splits)

lemma any_status_full: "length con = len \<Longrightarrow> any_status con len st = (st \<in> set con)"
  by (simp add: any_status_def)

lemma all_status_full:
  "length con = len \<Longrightarrow> all_status con len st = (\<forall>s\<in>set con. s = STATUS_REDUNDANT \<or> s = st)"
  by (simp add: all_status_def list_all_iff)

lemma count_status_full:
  "length con = len \<Longrightarrow> count_status con len st = length (filter (\<lambda>s. s = st) con)"
  by (simp add: count_status_def)


lemma coalesce_inner_length:
  "coalesce_inner ops st i j = Some st' \<Longrightarrow> length (fst st') \<le> length (fst st)"
proof (induction ops st i j arbitrary: st' rule: coalesce_inner.induct)
  case (1 ops st i j)
  show ?case
  proof (cases "j < length (fst st)")
    case False
    with "1.prems" show ?thesis by (simp add: coalesce_inner.simps [of ops st i j])
  next
    case True
    with "1.prems" obtain changed st1 where
      pair: "coalesce_pair ops st i j = Some (changed, st1)"
      by (auto simp: coalesce_inner.simps [of ops st i j] split: option.splits)
    have "shrinks st (coalesce_pair ops st i j)" by (rule shrinks_coalesce_pair)
    with pair have le: "length (fst st1) \<le> length (fst st)" by (simp split: if_splits)
    show ?thesis
    proof (cases changed)
      case True
      with "1.prems" \<open>j < length (fst st)\<close> pair
      have "coalesce_inner ops st1 i (i + 1) = Some st'"
        by (simp add: coalesce_inner.simps [of ops st i j])
      with "1.IH"(1) [OF \<open>j < length (fst st)\<close> pair refl True]
      have "length (fst st') \<le> length (fst st1)" by simp
      with le show ?thesis by simp
    next
      case False
      with "1.prems" \<open>j < length (fst st)\<close> pair
      have "coalesce_inner ops st1 i (j + 1) = Some st'"
        by (simp add: coalesce_inner.simps [of ops st i j])
      with "1.IH"(2) [OF \<open>j < length (fst st)\<close> pair refl False]
      have "length (fst st') \<le> length (fst st1)" by simp
      with le show ?thesis by simp
    qed
  qed
qed

lemma coalesce_outer_length:
  "coalesce_outer ops st k = Some st' \<Longrightarrow> length (fst st') \<le> length (fst st)"
proof (induction k arbitrary: st)
  case 0
  then show ?case by simp
next
  case (Suc k)
  then obtain st1 where inner: "coalesce_inner ops st k (k + 1) = Some st1"
    and outer: "coalesce_outer ops st1 k = Some st'"
    by (auto split: option.splits)
  from inner have "length (fst st1) \<le> length (fst st)" by (rule coalesce_inner_length)
  moreover from outer have "length (fst st') \<le> length (fst st1)" by (rule Suc.IH)
  ultimately show ?case by simp
qed

text \<open>
  Claim C4: a call of \<open>coalesce_pair\<close> that reports a change leaves exactly one basic map
  less, a call that reports no change leaves as many, the restarting inner loop of \<open>coalesce\<close>
  terminates on every input (every input is in the domain of the recursion), and the map
  returned by \<open>coalesce\<close> has at most as many basic maps as the map it was given.
\<close>

theorem C4_coalesce_shrinks_and_terminates:
  "(coalesce_pair ops st i j = Some (True, st1) \<longrightarrow> j < length (fst st) \<longrightarrow>
      length (fst st1) + 1 = length (fst st))
   \<and> (coalesce_pair ops st i j = Some (False, st2) \<longrightarrow> length (fst st2) = length (fst st))
   \<and> coalesce_inner_dom (ops, st, i, j)
   \<and> (coalesce ops st = Some st3 \<longrightarrow> length (fst st3) \<le> length (fst st))"
proof -
  have sh: "shrinks st (coalesce_pair ops st i j)" by (rule shrinks_coalesce_pair)
  have a: "coalesce_pair ops st i j = Some (True, st1) \<longrightarrow> j < length (fst st) \<longrightarrow>
      length (fst st1) + 1 = length (fst st)"
    using sh by auto
  have b: "coalesce_pair ops st i j = Some (False, st2) \<longrightarrow> length (fst st2) = length (fst st)"
    using sh by auto
  have c: "coalesce_inner_dom (ops, st, i, j)" by (rule coalesce_inner_total)
  have d: "coalesce ops st = Some st3 \<longrightarrow> length (fst st3) \<le> length (fst st)"
    by (auto simp: coalesce_def dest: coalesce_outer_length)
  from a b c d show ?thesis by blast
qed

theorem C4_coalesce_shrinks_and_terminates_witness:
  "coalesce_pair interval_ops
      ([interval_bmap False 0 10, interval_bmap False 2 7], [(0, 10), (2, 7)]) 0 1
     = Some (True, ([interval_bmap False 0 10], [(0, 10)]))
   \<and> coalesce_pair interval_ops
      ([interval_bmap False 0 5, interval_bmap False 7 10], [(0, 5), (7, 10)]) 0 1
     = Some (False, ([interval_bmap False 0 5, interval_bmap False 7 10], [(0, 5), (7, 10)]))
   \<and> coalesce interval_ops
      ([interval_bmap False 0 10, interval_bmap False 2 7], [(0, 10), (2, 7)])
     = Some ([interval_bmap False 0 10], [(0, 10)])
   \<and> (1::nat) < length (fst ([interval_bmap False 0 10, interval_bmap False 2 7], [(0::int, 10::int), (2, 7)]))
   \<and> length (fst ([interval_bmap False 0 10], [(0::int, 10::int)])) + 1
       = length (fst ([interval_bmap False 0 10, interval_bmap False 2 7], [(0::int, 10::int), (2, 7)]))"
proof -
  have p1: "coalesce_pair interval_ops
      ([interval_bmap False 0 10, interval_bmap False 2 7], [(0, 10), (2, 7)]) 0 1
     = Some (True, ([interval_bmap False 0 10], [(0, 10)]))"
    by code_simp
  have p2: "coalesce_pair interval_ops
      ([interval_bmap False 0 5, interval_bmap False 7 10], [(0, 5), (7, 10)]) 0 1
     = Some (False, ([interval_bmap False 0 5, interval_bmap False 7 10], [(0, 5), (7, 10)]))"
    by code_simp
  have p3: "coalesce interval_ops
      ([interval_bmap False 0 10, interval_bmap False 2 7], [(0, 10), (2, 7)])
     = Some ([interval_bmap False 0 10], [(0, 10)])"
    by code_simp
  from p1 p2 p3
    C4_coalesce_shrinks_and_terminates [of interval_ops
      "([interval_bmap False 0 10, interval_bmap False 2 7], [(0, 10), (2, 7)])" 0 1
      "([interval_bmap False 0 10], [(0, 10)])"]
  show ?thesis by simp
qed

section \<open>Coalescing: the case analysis of a pair\<close>

text \<open>
  Once the four status arrays are computed and hold no error and no separate entry,
  \<open>coalesce_local_pair\<close> is the chain of its rules, in order.
\<close>

lemma coalesce_local_pair_branches:
  assumes eq_i: "eq_status_in ops (fst st ! i) (snd st ! j) = Some eq_i"
    and eq_j: "eq_status_in ops (fst st ! j) (snd st ! i) = Some eq_j"
    and ineq_i: "ineq_status_in ops (fst st ! i) (Some (snd st ! i)) (snd st ! j) = Some ineq_i"
    and ineq_j: "ineq_status_in ops (fst st ! j) (Some (snd st ! j)) (snd st ! i) = Some ineq_j"
    and ok: "\<forall>s \<in> set eq_i \<union> set eq_j \<union> set ineq_i \<union> set ineq_j.
               s \<noteq> STATUS_ERROR \<and> s \<noteq> STATUS_SEPARATE"
  shows "coalesce_local_pair ops st i j =
    (if (\<forall>s \<in> set eq_i \<union> set ineq_i. s = STATUS_REDUNDANT \<or> s = STATUS_VALID)
       then Some (True, drop_map st j)
     else if (\<forall>s \<in> set eq_j \<union> set ineq_j. s = STATUS_REDUNDANT \<or> s = STATUS_VALID)
       then Some (True, drop_map st i)
     else if STATUS_ADJ_EQ \<in> set eq_i
       then check_eq_adj_eq ops st i j eq_i ineq_i eq_j ineq_j
     else if STATUS_ADJ_EQ \<in> set eq_j
       then check_eq_adj_eq ops st j i eq_j ineq_j eq_i ineq_i
     else if STATUS_ADJ_INEQ \<in> set eq_i \<or> STATUS_ADJ_INEQ \<in> set eq_j
       then check_adj_eq ops st i j eq_i ineq_i eq_j ineq_j
     else if STATUS_ADJ_EQ \<in> set ineq_i \<or> STATUS_ADJ_EQ \<in> set ineq_j
       then Some (False, st)
     else if STATUS_ADJ_INEQ \<in> set ineq_i \<or> STATUS_ADJ_INEQ \<in> set ineq_j
       then check_adj_ineq ops st i j eq_i ineq_i eq_j ineq_j
     else
       (case (if STATUS_CUT \<notin> set eq_i \<and> STATUS_CUT \<notin> set eq_j
              then check_facets ops st i j ineq_i ineq_j
              else Some (False, st)) of
          None \<Rightarrow> None
        | Some (changed, st') \<Rightarrow>
            if \<not> changed then check_wrap ops st' i j eq_i ineq_i eq_j ineq_j
            else Some (changed, st')))"
proof -
  have l1: "length eq_i = 2 * length (bm_eq (fst st ! i))"
    using eq_i by (simp add: eq_status_in_def length_eq_status_loop)
  have l2: "length eq_j = 2 * length (bm_eq (fst st ! j))"
    using eq_j by (simp add: eq_status_in_def length_eq_status_loop)
  have l3: "length ineq_i = length (bm_ineq (fst st ! i))"
    using ineq_i by (simp add: ineq_status_in_def length_ineq_status_loop)
  have l4: "length ineq_j = length (bm_ineq (fst st ! j))"
    using ineq_j by (simp add: ineq_status_in_def length_ineq_status_loop)
  note full = any_status_full [OF l1] any_status_full [OF l2] any_status_full [OF l3]
    any_status_full [OF l4] all_status_full [OF l1] all_status_full [OF l2]
    all_status_full [OF l3] all_status_full [OF l4]
  from ok have no:
    "STATUS_ERROR \<notin> set eq_i" "STATUS_SEPARATE \<notin> set eq_i"
    "STATUS_ERROR \<notin> set eq_j" "STATUS_SEPARATE \<notin> set eq_j"
    "STATUS_ERROR \<notin> set ineq_i" "STATUS_SEPARATE \<notin> set ineq_i"
    "STATUS_ERROR \<notin> set ineq_j" "STATUS_SEPARATE \<notin> set ineq_j"
    by auto
  show ?thesis
    unfolding coalesce_local_pair_def Let_def eq_i eq_j ineq_i ineq_j
    by (simp only: option.case full no if_False ball_Un simp_thms)
qed

text \<open>
  Claim C9, as stated: with no separate or error classification, some inequality classified
  \<open>adj_eq\<close> and no equality classified \<open>adj_eq\<close> or \<open>adj_ineq\<close>, \<open>coalesce_local_pair\<close> reports
  no change and leaves the pair as it is. This fails on the code when all constraints of the
  other basic map are valid: the subsumption test comes first and drops a basic map. Here both
  inequalities of the first basic map are \<open>adj_eq\<close>, those of the second are valid, there are no
  equalities, and the first basic map is dropped.
\<close>

theorem C9_bad_adj_ineq_counterexample:
  "eq_status_in adj_eq_ops (interval_bmap False 0 5) False = Some []
   \<and> eq_status_in adj_eq_ops (interval_bmap False 0 5) True = Some []
   \<and> ineq_status_in adj_eq_ops (interval_bmap False 0 5) (Some True) False
        = Some [STATUS_ADJ_EQ, STATUS_ADJ_EQ]
   \<and> ineq_status_in adj_eq_ops (interval_bmap False 0 5) (Some False) True
        = Some [STATUS_VALID, STATUS_VALID]
   \<and> coalesce_local_pair adj_eq_ops
        ([interval_bmap False 0 5, interval_bmap False 0 5], [True, False]) 0 1
        = Some (True, ([interval_bmap False 0 5], [False]))"
  by code_simp

text \<open>
  Claim C9, amended: if, for a pair with no separate or error classification, some inequality
  of either basic map is classified \<open>adj_eq\<close>, no equality of either is classified \<open>adj_eq\<close> or
  \<open>adj_ineq\<close>, and neither basic map has all its constraints valid or redundant, then
  \<open>coalesce_local_pair\<close> returns "no change" and leaves the basic maps, the tableaux and their
  number as they were.
\<close>

theorem C9_bad_adj_ineq_no_op:
  assumes "eq_status_in ops (fst st ! i) (snd st ! j) = Some eq_i"
    and "eq_status_in ops (fst st ! j) (snd st ! i) = Some eq_j"
    and "ineq_status_in ops (fst st ! i) (Some (snd st ! i)) (snd st ! j) = Some ineq_i"
    and "ineq_status_in ops (fst st ! j) (Some (snd st ! j)) (snd st ! i) = Some ineq_j"
    and "\<forall>s \<in> set eq_i \<union> set eq_j \<union> set ineq_i \<union> set ineq_j.
           s \<noteq> STATUS_ERROR \<and> s \<noteq> STATUS_SEPARATE"
    and "STATUS_ADJ_EQ \<in> set ineq_i \<union> set ineq_j"
    and "\<forall>s \<in> set eq_i \<union> set eq_j. s \<noteq> STATUS_ADJ_EQ \<and> s \<noteq> STATUS_ADJ_INEQ"
    and "\<not> (\<forall>s \<in> set eq_i \<union> set ineq_i. s = STATUS_REDUNDANT \<or> s = STATUS_VALID)"
    and "\<not> (\<forall>s \<in> set eq_j \<union> set ineq_j. s = STATUS_REDUNDANT \<or> s = STATUS_VALID)"
  shows "coalesce_local_pair ops st i j = Some (False, st)"
proof -
  from assms(7) have "STATUS_ADJ_EQ \<notin> set eq_i" "STATUS_ADJ_EQ \<notin> set eq_j"
    "STATUS_ADJ_INEQ \<notin> set eq_i" "STATUS_ADJ_INEQ \<notin> set eq_j"
    by auto
  with assms(6,8,9) show ?thesis
    unfolding coalesce_local_pair_branches [OF assms(1-5)] by simp
qed

theorem C9_bad_adj_ineq_no_op_witness:
  "coalesce_local_pair adj_eq_ops
     ([interval_bmap False 0 5, interval_bmap False 6 10], [False, False]) 0 1
   = Some (False, ([interval_bmap False 0 5, interval_bmap False 6 10], [False, False]))"
proof -
  have e: "eq_status_in adj_eq_ops (interval_bmap False 0 5) False = Some []"
    "eq_status_in adj_eq_ops (interval_bmap False 6 10) False = Some []"
    "ineq_status_in adj_eq_ops (interval_bmap False 0 5) (Some False) False
       = Some [STATUS_ADJ_EQ, STATUS_ADJ_EQ]"
    "ineq_status_in adj_eq_ops (interval_bmap False 6 10) (Some False) False
       = Some [STATUS_ADJ_EQ, STATUS_ADJ_EQ]"
    by code_simp+
  show ?thesis
    by (rule C9_bad_adj_ineq_no_op
          [where eq_i = "[]" and eq_j = "[]"
             and ineq_i = "[STATUS_ADJ_EQ, STATUS_ADJ_EQ]"
             and ineq_j = "[STATUS_ADJ_EQ, STATUS_ADJ_EQ]"])
       (simp_all add: e)
qed

lemma drop_map_nth:
  "i < j \<Longrightarrow> j < length (fst st) \<Longrightarrow> fst (drop_map st j) ! i = fst st ! i"
  by (simp add: drop_map_def Let_def nth_butlast)

lemma fuse_ordered_result:
  assumes "fuse_ordered ops st i j eq_i ineq_i eq_j ineq_j extra d = Some (changed, st')"
    and "i < j" and "j < length (fst st)"
  shows "changed \<and> length (fst st') = length (fst st) - 1
         \<and> fst st' ! i = fused_bmap ops (fst st ! i) (fst st ! j) eq_i ineq_i eq_j ineq_j extra d"
  using assms by (auto simp: fuse_ordered_def Let_def drop_map_nth split: option.splits)

lemma bm_rational_fused_bmap:
  assumes "\<forall>b. bm_rational (isl_basic_map_gauss ops b) = bm_rational b"
    and "\<forall>b. bm_rational (isl_basic_map_detect_inequality_pairs ops b) = bm_rational b"
  shows "bm_rational (fused_bmap ops bi bj eq_i ineq_i eq_j ineq_j extra d)
         = (bm_rational bi \<and> bm_rational bj)"
  using assms by (simp add: fused_bmap_def Let_def)

text \<open>
  Claim C6: provided Gauss and the detection of inequality pairs leave the rational flag alone,
  the basic map that \<open>fuse\<close> puts in the smaller of the two positions is rational if and only
  if both source basic maps are; and \<open>can_wrap_in_set\<close> returns "no change" with the state
  untouched as soon as one of the two basic maps is rational.
\<close>

theorem C6_rationality:
  assumes "\<forall>b. bm_rational (isl_basic_map_gauss ops b) = bm_rational b"
    and "\<forall>b. bm_rational (isl_basic_map_detect_inequality_pairs ops b) = bm_rational b"
  shows "(fuse ops st i j eq_i ineq_i eq_j ineq_j extra d = Some (changed, st') \<longrightarrow>
            i \<noteq> j \<longrightarrow> i < length (fst st) \<longrightarrow> j < length (fst st) \<longrightarrow>
            bm_rational (fst st' ! min i j)
              = (bm_rational (fst st ! i) \<and> bm_rational (fst st ! j)))
         \<and> (bm_rational (fst st ! i) \<or> bm_rational (fst st ! j) \<longrightarrow>
              can_wrap_in_set ops st i j c_eq_i c_ineq_i c_eq_j c_ineq_j = Some (False, st))"
proof (intro conjI impI)
  assume f: "fuse ops st i j eq_i ineq_i eq_j ineq_j extra d = Some (changed, st')"
    and ne: "i \<noteq> j" and li: "i < length (fst st)" and lj: "j < length (fst st)"
  show "bm_rational (fst st' ! min i j) = (bm_rational (fst st ! i) \<and> bm_rational (fst st ! j))"
  proof (cases "j < i")
    case True
    with f have "fuse_ordered ops st j i eq_j ineq_j eq_i ineq_i extra d = Some (changed, st')"
      by (simp add: fuse_def)
    from fuse_ordered_result [OF this True li] True
    show ?thesis by (auto simp: min_def bm_rational_fused_bmap [OF assms])
  next
    case False
    with ne have lt: "i < j" by simp
    from f False have "fuse_ordered ops st i j eq_i ineq_i eq_j ineq_j extra d = Some (changed, st')"
      by (simp add: fuse_def)
    from fuse_ordered_result [OF this lt lj] lt
    show ?thesis by (auto simp: min_def bm_rational_fused_bmap [OF assms])
  qed
next
  assume "bm_rational (fst st ! i) \<or> bm_rational (fst st ! j)"
  then show "can_wrap_in_set ops st i j c_eq_i c_ineq_i c_eq_j c_ineq_j = Some (False, st)"
    by (simp add: can_wrap_in_set_def Let_def)
qed

theorem C6_rationality_witness:
  "fuse interval_ops ([interval_bmap True 0 5, interval_bmap True 6 10], [(0, 5), (6, 10)]) 0 1
      None [STATUS_VALID, STATUS_ADJ_INEQ] None [STATUS_ADJ_INEQ, STATUS_VALID] [] False
     = Some (True, ([(interval_bmap True 0 10) \<lparr> bm_final := True \<rparr>], [(0, 10)]))
   \<and> bm_rational (fst ([(interval_bmap True 0 10) \<lparr> bm_final := True \<rparr>], [(0::int, 10::int)]) ! min 0 1)
   \<and> can_wrap_in_set interval_ops
        ([interval_bmap True 0 5, interval_bmap True 6 10], [(0, 5), (6, 10)]) 0 1
        [] [STATUS_VALID, STATUS_CUT] [] [STATUS_CUT, STATUS_VALID]
     = Some (False, ([interval_bmap True 0 5, interval_bmap True 6 10], [(0, 5), (6, 10)]))"
proof -
  have g: "\<forall>b. bm_rational (isl_basic_map_gauss interval_ops b) = bm_rational b"
    "\<forall>b. bm_rational (isl_basic_map_detect_inequality_pairs interval_ops b) = bm_rational b"
    by (simp_all add: interval_ops_def simple_ops_def)
  have f: "fuse interval_ops ([interval_bmap True 0 5, interval_bmap True 6 10], [(0, 5), (6, 10)]) 0 1
      None [STATUS_VALID, STATUS_ADJ_INEQ] None [STATUS_ADJ_INEQ, STATUS_VALID] [] False
     = Some (True, ([(interval_bmap True 0 10) \<lparr> bm_final := True \<rparr>], [(0, 10)]))"
    by code_simp
  have r: "bm_rational (interval_bmap True 0 5)" by (simp add: interval_bmap_def)
  from f r
    C6_rationality [OF g,
      where st = "([interval_bmap True 0 5, interval_bmap True 6 10], [(0, 5), (6, 10)])"
        and i = 0 and j = 1 and eq_i = None and eq_j = None
        and ineq_i = "[STATUS_VALID, STATUS_ADJ_INEQ]" and ineq_j = "[STATUS_ADJ_INEQ, STATUS_VALID]"
        and extra = "[]" and d = False and changed = True
        and st' = "([(interval_bmap True 0 10) \<lparr> bm_final := True \<rparr>], [(0, 10)])"
        and c_eq_i = "[]" and c_eq_j = "[]"
        and c_ineq_i = "[STATUS_VALID, STATUS_CUT]" and c_ineq_j = "[STATUS_CUT, STATUS_VALID]"]
  show ?thesis by (simp add: interval_bmap_def)
qed

lemma zip_as_map_nth:
  "length ys = length xs \<Longrightarrow> zip xs ys = map (\<lambda>k. (xs ! k, ys ! k)) [0 ..< length xs]"
  by (rule nth_equalityI) simp_all

lemma fuse_ineqs_valid_rows:
  assumes "length con = length rows"
  shows "fuse_ineqs con rows = valid_rows con rows"
  by (simp add: fuse_ineqs_def valid_rows_def zip_as_map_nth [OF assms] filter_map comp_def)

lemma fuse_eqs_None: "fuse_eqs None eqs = eqs"
  by (simp add: fuse_eqs_def map_nth)

lemma status_in_values:
  "status_in ops r t \<noteq> STATUS_UNSET \<and> status_in ops r t \<noteq> STATUS_REDUNDANT"
  by (simp add: status_in_def split: isl_ineq_type.splits)

lemma eq_status_loop_values:
  "eq_status_loop ops eqs tab = Some con \<Longrightarrow> STATUS_SEPARATE \<notin> set con \<Longrightarrow>
   \<forall>s \<in> set con. s \<noteq> STATUS_UNSET \<and> s \<noteq> STATUS_REDUNDANT"
proof (induction eqs arbitrary: con)
  case Nil
  then show ?case by simp
next
  case (Cons e es)
  let ?s0 = "status_in ops (isl_seq_neg e) tab"
  let ?s1 = "status_in ops (isl_seq_neg (isl_seq_neg e)) tab"
  from Cons.prems obtain rest where
    rest: "eq_status_loop ops es tab = Some rest" and con: "con = ?s0 # ?s1 # rest"
    by (auto simp: Let_def split: if_splits option.splits)
  from con Cons.prems(2) have "STATUS_SEPARATE \<notin> set rest" by simp
  with rest have "\<forall>s \<in> set rest. s \<noteq> STATUS_UNSET \<and> s \<noteq> STATUS_REDUNDANT"
    by (rule Cons.IH)
  with con show ?case by (simp add: status_in_values)
qed

lemma adj_ineq_fused_eq:
  assumes "length ineq_i = length (bm_ineq bi)" and "length ineq_j = length (bm_ineq bj)"
  shows "fused_bmap ops bi bj None ineq_i None ineq_j [] False
         = adj_ineq_fused ops bi bj ineq_i ineq_j"
  by (simp add: fused_bmap_def adj_ineq_fused_def Let_def fuse_eqs_None
        fuse_ineqs_valid_rows [OF assms(1)] fuse_ineqs_valid_rows [OF assms(2)])

text \<open>
  Claim C7: for a pair \<open>i < j\<close> in which some inequality of each basic map is \<open>adj_ineq\<close> and
  no equality takes part in an adjacency, a change is reported only if one side has exactly
  one \<open>adj_ineq\<close> inequality; and if there is no cut at all and each side has exactly one,
  all equalities are valid and the pair is replaced (unless building the new tableau fails)
  by \<open>adj_ineq_fused\<close>: the valid constraints of both, the two adjacent inequalities left out.
\<close>

theorem C7_adj_ineq_rule:
  assumes "eq_status_in ops (fst st ! i) (snd st ! j) = Some eq_i"
    and "eq_status_in ops (fst st ! j) (snd st ! i) = Some eq_j"
    and "ineq_status_in ops (fst st ! i) (Some (snd st ! i)) (snd st ! j) = Some ineq_i"
    and "ineq_status_in ops (fst st ! j) (Some (snd st ! j)) (snd st ! i) = Some ineq_j"
    and "\<forall>s \<in> set eq_i \<union> set eq_j \<union> set ineq_i \<union> set ineq_j.
           s \<noteq> STATUS_ERROR \<and> s \<noteq> STATUS_SEPARATE"
    and "STATUS_ADJ_INEQ \<in> set ineq_i" and "STATUS_ADJ_INEQ \<in> set ineq_j"
    and "\<forall>s \<in> set eq_i \<union> set eq_j. s \<noteq> STATUS_ADJ_EQ \<and> s \<noteq> STATUS_ADJ_INEQ"
    and "STATUS_ADJ_EQ \<notin> set ineq_i \<union> set ineq_j"
    and "i < j" and "j < length (fst st)"
  shows "(coalesce_local_pair ops st i j = Some (True, st') \<longrightarrow>
            length (filter (\<lambda>s. s = STATUS_ADJ_INEQ) ineq_i) = 1
            \<or> length (filter (\<lambda>s. s = STATUS_ADJ_INEQ) ineq_j) = 1)
         \<and> (STATUS_CUT \<notin> set eq_i \<union> set eq_j \<union> set ineq_i \<union> set ineq_j
              \<and> length (filter (\<lambda>s. s = STATUS_ADJ_INEQ) ineq_i) = 1
              \<and> length (filter (\<lambda>s. s = STATUS_ADJ_INEQ) ineq_j) = 1 \<longrightarrow>
            (\<forall>s \<in> set eq_i \<union> set eq_j. s = STATUS_VALID)
            \<and> coalesce_local_pair ops st i j =
                (case isl_tab_from_basic_map ops
                        (adj_ineq_fused ops (fst st ! i) (fst st ! j) ineq_i ineq_j) of
                   None \<Rightarrow> None
                 | Some t \<Rightarrow>
                     (case isl_tab_detect_redundant ops t of
                        None \<Rightarrow> None
                      | Some t' \<Rightarrow>
                          Some (True,
                            drop_map ((fst st)[i := adj_ineq_fused ops (fst st ! i) (fst st ! j)
                                                      ineq_i ineq_j],
                                      (snd st)[i := t']) j))))"
proof -
  have l1: "length eq_i = 2 * length (bm_eq (fst st ! i))"
    using assms(1) by (simp add: eq_status_in_def length_eq_status_loop)
  have l2: "length eq_j = 2 * length (bm_eq (fst st ! j))"
    using assms(2) by (simp add: eq_status_in_def length_eq_status_loop)
  have l3: "length ineq_i = length (bm_ineq (fst st ! i))"
    using assms(3) by (simp add: ineq_status_in_def length_ineq_status_loop)
  have l4: "length ineq_j = length (bm_ineq (fst st ! j))"
    using assms(4) by (simp add: ineq_status_in_def length_ineq_status_loop)
  from assms(8) have noeq: "STATUS_ADJ_EQ \<notin> set eq_i" "STATUS_ADJ_EQ \<notin> set eq_j"
    "STATUS_ADJ_INEQ \<notin> set eq_i" "STATUS_ADJ_INEQ \<notin> set eq_j"
    by auto
  have branch: "coalesce_local_pair ops st i j = check_adj_ineq ops st i j eq_i ineq_i eq_j ineq_j"
    unfolding coalesce_local_pair_branches [OF assms(1-5)]
    using assms(6,7,9) noeq by auto
  have a: "coalesce_local_pair ops st i j = Some (True, st') \<longrightarrow>
            length (filter (\<lambda>s. s = STATUS_ADJ_INEQ) ineq_i) = 1
            \<or> length (filter (\<lambda>s. s = STATUS_ADJ_INEQ) ineq_j) = 1"
    unfolding branch
    by (auto simp: check_adj_ineq_def Let_def count_status_full [OF l3] count_status_full [OF l4])
  have b: "(\<forall>s \<in> set eq_i \<union> set eq_j. s = STATUS_VALID)
            \<and> coalesce_local_pair ops st i j =
                (case isl_tab_from_basic_map ops
                        (adj_ineq_fused ops (fst st ! i) (fst st ! j) ineq_i ineq_j) of
                   None \<Rightarrow> None
                 | Some t \<Rightarrow>
                     (case isl_tab_detect_redundant ops t of
                        None \<Rightarrow> None
                      | Some t' \<Rightarrow>
                          Some (True,
                            drop_map ((fst st)[i := adj_ineq_fused ops (fst st ! i) (fst st ! j)
                                                      ineq_i ineq_j],
                                      (snd st)[i := t']) j)))"
    if cut: "STATUS_CUT \<notin> set eq_i \<union> set eq_j \<union> set ineq_i \<union> set ineq_j"
      and c1: "length (filter (\<lambda>s. s = STATUS_ADJ_INEQ) ineq_i) = 1"
      and c2: "length (filter (\<lambda>s. s = STATUS_ADJ_INEQ) ineq_j) = 1"
  proof
    from assms(5) have sep: "STATUS_SEPARATE \<notin> set eq_i" "STATUS_SEPARATE \<notin> set eq_j"
      by auto
    have v1: "\<forall>s \<in> set eq_i. s \<noteq> STATUS_UNSET \<and> s \<noteq> STATUS_REDUNDANT"
      using assms(1) sep(1) unfolding eq_status_in_def by (rule eq_status_loop_values)
    have v2: "\<forall>s \<in> set eq_j. s \<noteq> STATUS_UNSET \<and> s \<noteq> STATUS_REDUNDANT"
      using assms(2) sep(2) unfolding eq_status_in_def by (rule eq_status_loop_values)
    show "\<forall>s \<in> set eq_i \<union> set eq_j. s = STATUS_VALID"
    proof
      fix s assume s: "s \<in> set eq_i \<union> set eq_j"
      with v1 v2 have "s \<noteq> STATUS_UNSET" "s \<noteq> STATUS_REDUNDANT" by auto
      moreover from s assms(5) have "s \<noteq> STATUS_ERROR" "s \<noteq> STATUS_SEPARATE" by auto
      moreover from s assms(8) have "s \<noteq> STATUS_ADJ_EQ" "s \<noteq> STATUS_ADJ_INEQ" by auto
      moreover from s cut have "s \<noteq> STATUS_CUT" by auto
      ultimately show "s = STATUS_VALID" by (cases s) simp_all
    qed
    from cut have nocut: "STATUS_CUT \<notin> set eq_i" "STATUS_CUT \<notin> set eq_j"
      "STATUS_CUT \<notin> set ineq_i" "STATUS_CUT \<notin> set ineq_j"
      by auto
    have "check_adj_ineq ops st i j eq_i ineq_i eq_j ineq_j
          = fuse ops st i j None ineq_i None ineq_j [] False"
      using nocut c1 c2
      by (simp add: check_adj_ineq_def Let_def count_status_full [OF l3] count_status_full [OF l4]
            any_status_full [OF l1] any_status_full [OF l2] any_status_full [OF l3]
            any_status_full [OF l4])
    also have "\<dots> = fuse_ordered ops st i j None ineq_i None ineq_j [] False"
      using \<open>i < j\<close> by (simp add: fuse_def)
    finally have eq: "check_adj_ineq ops st i j eq_i ineq_i eq_j ineq_j
          = fuse_ordered ops st i j None ineq_i None ineq_j [] False" .
    show "coalesce_local_pair ops st i j =
                (case isl_tab_from_basic_map ops
                        (adj_ineq_fused ops (fst st ! i) (fst st ! j) ineq_i ineq_j) of
                   None \<Rightarrow> None
                 | Some t \<Rightarrow>
                     (case isl_tab_detect_redundant ops t of
                        None \<Rightarrow> None
                      | Some t' \<Rightarrow>
                          Some (True,
                            drop_map ((fst st)[i := adj_ineq_fused ops (fst st ! i) (fst st ! j)
                                                      ineq_i ineq_j],
                                      (snd st)[i := t']) j)))"
      unfolding branch eq fuse_ordered_def Let_def adj_ineq_fused_eq [OF l3 l4]
      by (rule refl)
  qed
  from a b show ?thesis by blast
qed

theorem C7_adj_ineq_rule_witness:
  "coalesce_local_pair interval_ops
     ([interval_bmap False 0 5, interval_bmap False 6 10], [(0, 5), (6, 10)]) 0 1
   = Some (True, ([(interval_bmap False 0 10) \<lparr> bm_final := True \<rparr>], [(0, 10)]))
   \<and> adj_ineq_fused interval_ops (interval_bmap False 0 5) (interval_bmap False 6 10)
       [STATUS_VALID, STATUS_ADJ_INEQ] [STATUS_ADJ_INEQ, STATUS_VALID]
     = (interval_bmap False 0 10) \<lparr> bm_final := True \<rparr>"
proof -
  have e: "eq_status_in interval_ops (interval_bmap False 0 5) (6, 10) = Some []"
    "eq_status_in interval_ops (interval_bmap False 6 10) (0, 5) = Some []"
    "ineq_status_in interval_ops (interval_bmap False 0 5) (Some (0, 5)) (6, 10)
       = Some [STATUS_VALID, STATUS_ADJ_INEQ]"
    "ineq_status_in interval_ops (interval_bmap False 6 10) (Some (6, 10)) (0, 5)
       = Some [STATUS_ADJ_INEQ, STATUS_VALID]"
    by code_simp+
  have f: "adj_ineq_fused interval_ops (interval_bmap False 0 5) (interval_bmap False 6 10)
       [STATUS_VALID, STATUS_ADJ_INEQ] [STATUS_ADJ_INEQ, STATUS_VALID]
     = (interval_bmap False 0 10) \<lparr> bm_final := True \<rparr>"
    by code_simp
  have t: "isl_tab_from_basic_map interval_ops ((interval_bmap False 0 10) \<lparr> bm_final := True \<rparr>)
            = Some (0, 10)"
    "isl_tab_detect_redundant interval_ops (0, 10) = Some (0, 10)"
    by code_simp+
  have "coalesce_local_pair interval_ops
     ([interval_bmap False 0 5, interval_bmap False 6 10], [(0, 5), (6, 10)]) 0 1
   = Some (True, ([(interval_bmap False 0 10) \<lparr> bm_final := True \<rparr>], [(0, 10)]))"
    using C7_adj_ineq_rule
      [where ops = interval_ops
         and st = "([interval_bmap False 0 5, interval_bmap False 6 10], [(0, 5), (6, 10)])"
         and i = 0 and j = 1 and eq_i = "[]" and eq_j = "[]"
         and ineq_i = "[STATUS_VALID, STATUS_ADJ_INEQ]"
         and ineq_j = "[STATUS_ADJ_INEQ, STATUS_VALID]"]
    by (simp add: e f t drop_map_def)
  with f show ?thesis by simp
qed

section \<open>Wrapping: rejected wrap sets\<close>

lemma take_wraps_append:
  "take_wraps wraps bound mat (xs @ ys) =
    (case take_wraps wraps bound mat xs of
       Wrap_rows m \<Rightarrow> take_wraps wraps bound m ys
     | r \<Rightarrow> r)"
  by (induction wraps bound mat xs rule: take_wraps.induct) simp_all

lemma add_wraps_ineqs_take:
  "add_wraps_ineqs ops wraps bmap tab bound sset mat ls =
   take_wraps wraps bound mat
     (map (\<lambda>l. isl_set_wrap_facet ops sset bound (bm_ineq bmap ! l))
       (filter (\<lambda>l. \<not> isl_seq_is_neg bound (bm_ineq bmap ! l)
                   \<and> \<not> isl_seq_eq bound (bm_ineq bmap ! l)
                   \<and> \<not> isl_tab_is_redundant ops tab (length (bm_eq bmap) + l)) ls))"
  by (induction ls arbitrary: mat) (auto split: option.splits)

lemma add_wraps_eqs_take:
  "add_wraps_eqs ops wraps bmap bound sset mat ls =
   take_wraps wraps bound mat
     (concat (map (\<lambda>l. [isl_set_wrap_facet ops sset bound (isl_seq_neg (bm_eq bmap ! l)),
                          isl_set_wrap_facet ops sset bound (bm_eq bmap ! l)])
          (filter (\<lambda>l. \<not> isl_seq_is_neg bound (bm_eq bmap ! l)
                      \<and> \<not> isl_seq_eq bound (bm_eq bmap ! l)) ls)))"
  by (induction ls arbitrary: mat) (auto split: option.splits)

lemma add_wraps_take:
  "add_wraps ops wraps bmap tab bound sset =
    (case take_wraps wraps bound (w_mat wraps) (computed_wraps ops bmap tab bound sset) of
       Wrap_error \<Rightarrow> None
     | Wrap_unbounded \<Rightarrow> Some (wraps \<lparr> w_mat := [] \<rparr>)
     | Wrap_rows m \<Rightarrow> Some (wraps \<lparr> w_mat := m \<rparr>))"
  by (simp add: add_wraps_def computed_wraps_def take_wraps_append add_wraps_ineqs_take
        add_wraps_eqs_take split: wrap_result.splits)

lemma take_wraps_bad:
  assumes "None \<notin> set pre"
    and "isl_seq_eq r bound \<or> \<not> allow_wrap wraps r"
  shows "take_wraps wraps bound mat (pre @ Some r # post) = Wrap_unbounded"
  using assms
proof (induction pre arbitrary: mat)
  case Nil
  then show ?case by auto
next
  case (Cons a pre)
  then obtain x where "a = Some x" by (cases a) auto
  with Cons show ?case by simp
qed

lemma Max_insert_max:
  fixes m :: int
  assumes "finite A"
  shows "Max (insert (max m x) A) = Max (insert m (insert x A))"
proof (cases "A = {}")
  case True
  then show ?thesis by simp
next
  case False
  with assms show ?thesis by (simp add: max.assoc)
qed

lemma isl_seq_abs_max_foldl:
  "0 \<le> m \<Longrightarrow>
   foldl (\<lambda>m x. if isl_int_abs_gt x m then \<bar>x\<bar> else m) m xs = Max (insert m (abs ` set xs))"
proof (induction xs arbitrary: m)
  case Nil
  then show ?case by simp
next
  case (Cons x xs)
  have step: "(if isl_int_abs_gt x m then \<bar>x\<bar> else m) = max m \<bar>x\<bar>"
    using Cons.prems by (auto simp: isl_int_abs_gt_def)
  have "foldl (\<lambda>m x. if isl_int_abs_gt x m then \<bar>x\<bar> else m) (max m \<bar>x\<bar>) xs
        = Max (insert (max m \<bar>x\<bar>) (abs ` set xs))"
    using Cons.prems by (intro Cons.IH) simp
  also have "\<dots> = Max (insert m (insert \<bar>x\<bar> (abs ` set xs)))"
    by (rule Max_insert_max) simp
  finally show ?case by (simp only: foldl_Cons step list.set image_insert)
qed

lemma isl_seq_abs_max_Max: "isl_seq_abs_max xs = Max (insert 0 (abs ` set xs))"
  by (simp add: isl_seq_abs_max_def isl_seq_abs_max_foldl)

lemma isl_seq_abs_max_nonneg: "0 \<le> isl_seq_abs_max xs"
  by (simp add: isl_seq_abs_max_Max)

text \<open>One pass of \<open>wraps_update_max\<close> over a list of rows selected by a predicate.\<close>

lemma Max_insert_absorb:
  fixes m :: int
  assumes fin: "finite S" "finite R" and m: "0 \<le> m"
    and mk: "mk \<in> insert 0 S" and ub: "\<forall>c \<in> S. c \<le> mk"
  shows "Max (insert m (insert mk R)) = Max (insert m (S \<union> R))"
proof (rule Max_eq_if)
  show "finite (insert m (insert mk R))" using fin by simp
  show "finite (insert m (S \<union> R))" using fin by simp
  show "\<forall>a\<in>insert m (insert mk R). \<exists>b\<in>insert m (S \<union> R). a \<le> b"
  proof
    fix a assume "a \<in> insert m (insert mk R)"
    then consider "a = m" | "a = mk" | "a \<in> R" by blast
    then show "\<exists>b\<in>insert m (S \<union> R). a \<le> b"
    proof cases
      case 1
      then show ?thesis by blast
    next
      case 2
      from mk consider "mk = 0" | "mk \<in> S" by blast
      then show ?thesis
      proof cases
        case 1
        with 2 m have "a \<le> m" by simp
        then show ?thesis by blast
      next
        case 2
        with \<open>a = mk\<close> have "a \<in> S" by simp
        then show ?thesis by blast
      qed
    next
      case 3
      then show ?thesis by blast
    qed
  qed
  show "\<forall>b\<in>insert m (S \<union> R). \<exists>a\<in>insert m (insert mk R). b \<le> a"
  proof
    fix b assume "b \<in> insert m (S \<union> R)"
    then consider "b = m" | "b \<in> S" | "b \<in> R" by blast
    then show "\<exists>a\<in>insert m (insert mk R). b \<le> a"
    proof cases
      case 1
      then show ?thesis by blast
    next
      case 2
      with ub have "b \<le> mk" by blast
      then show ?thesis by blast
    next
      case 3
      then show ?thesis by blast
    qed
  qed
qed

lemma update_max_step:
  fixes m :: int
  assumes "0 \<le> m" and "finite R"
  shows "Max (insert (max m (isl_seq_abs_max xs)) R) = Max (insert m (abs ` set xs \<union> R))"
proof -
  let ?mk = "isl_seq_abs_max xs"
  have "Max (insert (max m ?mk) R) = Max (insert m (insert ?mk R))"
    using assms(2) by (rule Max_insert_max)
  also have "\<dots> = Max (insert m (abs ` set xs \<union> R))"
  proof (rule Max_insert_absorb)
    show "finite (abs ` set xs)" by simp
    show "finite R" by fact
    show "0 \<le> m" by fact
    show "?mk \<in> insert 0 (abs ` set xs)"
      unfolding isl_seq_abs_max_Max by (rule Max_in) simp_all
    show "\<forall>c \<in> abs ` set xs. c \<le> ?mk"
      unfolding isl_seq_abs_max_Max by (simp add: Max_ge)
  qed
  finally show ?thesis .
qed

lemma update_max_foldl:
  assumes "0 \<le> m"
  shows "foldl (\<lambda>m k. if skip k then m
                      else if isl_int_abs_gt (isl_seq_abs_max (tl (rows ! k))) m
                        then isl_seq_abs_max (tl (rows ! k)) else m) m ks
         = Max (insert m (abs ` (\<Union>k \<in> set (filter (\<lambda>k. \<not> skip k) ks). set (tl (rows ! k)))))"
  using assms
proof (induction ks arbitrary: m)
  case Nil
  then show ?case by simp
next
  case (Cons k ks)
  let ?f = "\<lambda>m k. if skip k then m
                      else if isl_int_abs_gt (isl_seq_abs_max (tl (rows ! k))) m
                        then isl_seq_abs_max (tl (rows ! k)) else m"
  let ?U = "\<lambda>ks. abs ` (\<Union>k \<in> set (filter (\<lambda>k. \<not> skip k) ks). set (tl (rows ! k)))"
  show ?case
  proof (cases "skip k")
    case True
    then have "foldl ?f m (k # ks) = foldl ?f m ks" by simp
    also have "\<dots> = Max (insert m (?U ks))" using Cons.prems by (rule Cons.IH)
    also have "?U ks = ?U (k # ks)" using True by simp
    finally show ?thesis .
  next
    case False
    let ?mk = "isl_seq_abs_max (tl (rows ! k))"
    have mk: "0 \<le> ?mk" by (rule isl_seq_abs_max_nonneg)
    have step: "?f m k = max m ?mk"
      using mk Cons.prems False by (simp add: isl_int_abs_gt_def Let_def)
    have "foldl ?f m (k # ks) = foldl ?f (max m ?mk) ks"
      by (simp only: foldl_Cons step)
    also have "\<dots> = Max (insert (max m ?mk) (?U ks))"
      using Cons.prems by (intro Cons.IH) simp
    also have "\<dots> = Max (insert m (abs ` set (tl (rows ! k)) \<union> ?U ks))"
      using Cons.prems by (intro update_max_step) simp_all
    also have "abs ` set (tl (rows ! k)) \<union> ?U ks = ?U (k # ks)"
      using False by (simp add: image_Un)
    finally show ?thesis .
  qed
qed


lemma Max_insert_Max:
  fixes m :: int
  assumes "finite A" "finite B"
  shows "Max (insert (Max (insert m A)) B) = Max (insert m (A \<union> B))"
proof (rule Max_eq_if)
  show "finite (insert (Max (insert m A)) B)" using assms by simp
  show "finite (insert m (A \<union> B))" using assms by simp
  have in_set: "Max (insert m A) \<in> insert m A"
    using assms by (intro Max_in) simp_all
  show "\<forall>a\<in>insert (Max (insert m A)) B. \<exists>b\<in>insert m (A \<union> B). a \<le> b"
  proof
    fix a assume "a \<in> insert (Max (insert m A)) B"
    then consider "a = Max (insert m A)" | "a \<in> B" by blast
    then show "\<exists>b\<in>insert m (A \<union> B). a \<le> b"
    proof cases
      case 1
      with in_set have "a \<in> insert m (A \<union> B)" by blast
      then show ?thesis by blast
    next
      case 2
      then show ?thesis by blast
    qed
  qed
  show "\<forall>b\<in>insert m (A \<union> B). \<exists>a\<in>insert (Max (insert m A)) B. b \<le> a"
  proof
    fix b assume "b \<in> insert m (A \<union> B)"
    then consider "b \<in> insert m A" | "b \<in> B" by blast
    then show "\<exists>a\<in>insert (Max (insert m A)) B. b \<le> a"
    proof cases
      case 1
      with assms have "b \<le> Max (insert m A)" by (intro Max_ge) simp_all
      then show ?thesis by blast
    next
      case 2
      then show ?thesis by blast
    qed
  qed
qed

lemma wraps_update_max_Max:
  assumes "0 \<le> w_max wraps"
  shows "w_max (wraps_update_max wraps bmap eq ineq)
         = Max (insert (w_max wraps) (abs ` non_valid_coefficients bmap eq ineq))"
proof -
  let ?A = "abs ` (\<Union>k \<in> set (filter (\<lambda>k. \<not> (eq ! (2 * k) = STATUS_VALID \<and> eq ! (2 * k + 1) = STATUS_VALID))
                   [0 ..< length (bm_eq bmap)]). set (tl (bm_eq bmap ! k)))"
  let ?B = "abs ` (\<Union>k \<in> set (filter (\<lambda>k. \<not> (ineq ! k = STATUS_VALID \<or> ineq ! k = STATUS_REDUNDANT))
                   [0 ..< length (bm_ineq bmap)]). set (tl (bm_ineq bmap ! k)))"
  let ?m1 = "Max (insert (w_max wraps) ?A)"
  have m1: "0 \<le> ?m1"
  proof -
    have "w_max wraps \<le> ?m1" by (intro Max_ge) simp_all
    with assms show ?thesis by (rule order_trans)
  qed
  have "w_max (wraps_update_max wraps bmap eq ineq)
        = foldl (\<lambda>m k. if ineq ! k = STATUS_VALID \<or> ineq ! k = STATUS_REDUNDANT then m
                        else if isl_int_abs_gt (isl_seq_abs_max (tl (bm_ineq bmap ! k))) m
                          then isl_seq_abs_max (tl (bm_ineq bmap ! k)) else m)
            (foldl (\<lambda>m k. if eq ! (2 * k) = STATUS_VALID \<and> eq ! (2 * k + 1) = STATUS_VALID then m
                           else if isl_int_abs_gt (isl_seq_abs_max (tl (bm_eq bmap ! k))) m
                             then isl_seq_abs_max (tl (bm_eq bmap ! k)) else m)
               (w_max wraps) [0 ..< length (bm_eq bmap)])
            [0 ..< length (bm_ineq bmap)]"
    unfolding wraps_update_max_def Let_def by simp
  also have "\<dots> = Max (insert ?m1 ?B)"
    by (simp only: update_max_foldl [OF assms] update_max_foldl [OF m1])
  also have "\<dots> = Max (insert (w_max wraps) (?A \<union> ?B))"
    by (rule Max_insert_Max) simp_all
  also have "?A \<union> ?B = abs ` non_valid_coefficients bmap eq ineq"
    by (simp add: non_valid_coefficients_def image_Un)
  finally show ?thesis .
qed

lemma w_bound_wraps_update_max [simp]:
  "w_bound (wraps_update_max wraps bmap eq ineq) = w_bound wraps"
  by (simp add: wraps_update_max_def Let_def)

lemma non_valid_subset_dropped:
  "non_valid_coefficients bmap eq ineq \<subseteq> dropped_coefficients bmap eq ineq"
  by (auto simp: non_valid_coefficients_def dropped_coefficients_def)

lemma dropped_coefficients_finite: "finite (dropped_coefficients bmap eq ineq)"
  by (simp add: dropped_coefficients_def)

lemma non_valid_coefficients_finite: "finite (non_valid_coefficients bmap eq ineq)"
  by (simp add: non_valid_coefficients_def)

lemma wraps_init_cap:
  assumes "coalesce_bounded_wrapping ops"
  shows "w_bound (wraps_init ops mat p i j eq_i ineq_i eq_j ineq_j)"
    and "w_max (wraps_init ops mat p i j eq_i ineq_i eq_j ineq_j)
         = Max (insert 0 (abs ` (non_valid_coefficients (p ! i) eq_i ineq_i
                                 \<union> non_valid_coefficients (p ! j) eq_j ineq_j)))"
proof -
  let ?w0 = "\<lparr> w_bound = True, w_mat = mat, w_max = 0 \<rparr>"
  let ?w1 = "wraps_update_max ?w0 (p ! i) eq_i ineq_i"
  let ?A = "abs ` non_valid_coefficients (p ! i) eq_i ineq_i"
  let ?B = "abs ` non_valid_coefficients (p ! j) eq_j ineq_j"
  have init: "wraps_init ops mat p i j eq_i ineq_i eq_j ineq_j
              = wraps_update_max ?w1 (p ! j) eq_j ineq_j"
    using assms by (simp add: wraps_init_def Let_def)
  show "w_bound (wraps_init ops mat p i j eq_i ineq_i eq_j ineq_j)"
    unfolding init by simp
  have w1: "w_max ?w1 = Max (insert 0 ?A)"
    using wraps_update_max_Max [of ?w0 "p ! i" eq_i ineq_i] by simp
  have "0 \<le> Max (insert 0 ?A)"
    by (intro Max_ge) (simp_all add: non_valid_coefficients_finite)
  with w1 have nonneg: "0 \<le> w_max ?w1" by simp
  have "w_max (wraps_update_max ?w1 (p ! j) eq_j ineq_j) = Max (insert (w_max ?w1) ?B)"
    using nonneg by (rule wraps_update_max_Max)
  also have "\<dots> = Max (insert (Max (insert 0 ?A)) ?B)" by (simp only: w1)
  also have "\<dots> = Max (insert 0 (?A \<union> ?B))"
    by (rule Max_insert_Max) (simp_all add: non_valid_coefficients_finite)
  finally show "w_max (wraps_init ops mat p i j eq_i ineq_i eq_j ineq_j)
         = Max (insert 0 (abs ` (non_valid_coefficients (p ! i) eq_i ineq_i
                                 \<union> non_valid_coefficients (p ! j) eq_j ineq_j)))"
    unfolding init by (simp only: image_Un)
qed

text \<open>
  Claim C8: in \<open>add_wraps\<close>, when the wraps computed so far all succeeded and the next one is
  identical to the bound row, the whole wrap set is discarded (the row count becomes zero);
  likewise, with the bound on coefficients active, when one of its non-constant coefficients
  exceeds the cap in absolute value. The cap set up by \<open>wraps_init\<close> is the largest absolute
  non-constant coefficient among the constraints of the two basic maps that are neither valid
  nor redundant (zero if there is none); it never exceeds the largest such coefficient among
  all the constraints \<open>fuse\<close> leaves out, so a coefficient beyond the latter also discards the
  set. Without the option no bound is applied.
\<close>

theorem C8_wraps_discarded:
  "(computed_wraps ops bmap tab bound sset = pre @ Some r # post \<longrightarrow> None \<notin> set pre \<longrightarrow>
      r = bound \<longrightarrow>
      add_wraps ops wraps bmap tab bound sset = Some (wraps \<lparr> w_mat := [] \<rparr>))
   \<and> (computed_wraps ops bmap tab bound sset = pre @ Some r # post \<longrightarrow> None \<notin> set pre \<longrightarrow>
      w_bound wraps \<longrightarrow> (\<exists>c \<in> set (tl r). \<bar>c\<bar> > \<bar>w_max wraps\<bar>) \<longrightarrow>
      add_wraps ops wraps bmap tab bound sset = Some (wraps \<lparr> w_mat := [] \<rparr>))
   \<and> (coalesce_bounded_wrapping ops \<longrightarrow>
      w_bound (wraps_init ops mat p i j eq_i ineq_i eq_j ineq_j)
      \<and> w_max (wraps_init ops mat p i j eq_i ineq_i eq_j ineq_j)
          = Max (insert 0 (abs ` (non_valid_coefficients (p ! i) eq_i ineq_i
                                  \<union> non_valid_coefficients (p ! j) eq_j ineq_j)))
      \<and> w_max (wraps_init ops mat p i j eq_i ineq_i eq_j ineq_j)
          \<le> Max (insert 0 (abs ` (dropped_coefficients (p ! i) eq_i ineq_i
                                  \<union> dropped_coefficients (p ! j) eq_j ineq_j))))
   \<and> (\<not> coalesce_bounded_wrapping ops \<longrightarrow>
      \<not> w_bound (wraps_init ops mat p i j eq_i ineq_i eq_j ineq_j))"
proof (intro conjI impI)
  assume "computed_wraps ops bmap tab bound sset = pre @ Some r # post" "None \<notin> set pre"
    "r = bound"
  then show "add_wraps ops wraps bmap tab bound sset = Some (wraps \<lparr> w_mat := [] \<rparr>)"
    by (simp add: add_wraps_take take_wraps_bad isl_seq_eq_def)
next
  assume c: "computed_wraps ops bmap tab bound sset = pre @ Some r # post" "None \<notin> set pre"
    and b: "w_bound wraps" and big: "\<exists>c \<in> set (tl r). \<bar>c\<bar> > \<bar>w_max wraps\<bar>"
  from b big have "\<not> allow_wrap wraps r"
    by (auto simp: allow_wrap_def list_all_iff isl_int_abs_gt_def)
  with c show "add_wraps ops wraps bmap tab bound sset = Some (wraps \<lparr> w_mat := [] \<rparr>)"
    by (simp add: add_wraps_take take_wraps_bad)
next
  assume opt: "coalesce_bounded_wrapping ops"
  show "w_bound (wraps_init ops mat p i j eq_i ineq_i eq_j ineq_j)"
    using opt by (rule wraps_init_cap)
  show cap: "w_max (wraps_init ops mat p i j eq_i ineq_i eq_j ineq_j)
          = Max (insert 0 (abs ` (non_valid_coefficients (p ! i) eq_i ineq_i
                                  \<union> non_valid_coefficients (p ! j) eq_j ineq_j)))"
    using opt by (rule wraps_init_cap)
  have "Max (insert 0 (abs ` (non_valid_coefficients (p ! i) eq_i ineq_i
                                  \<union> non_valid_coefficients (p ! j) eq_j ineq_j)))
        \<le> Max (insert 0 (abs ` (dropped_coefficients (p ! i) eq_i ineq_i
                                  \<union> dropped_coefficients (p ! j) eq_j ineq_j)))"
  proof (rule Max_mono)
    have "non_valid_coefficients (p ! i) eq_i ineq_i \<union> non_valid_coefficients (p ! j) eq_j ineq_j
          \<subseteq> dropped_coefficients (p ! i) eq_i ineq_i \<union> dropped_coefficients (p ! j) eq_j ineq_j"
      using non_valid_subset_dropped [of "p ! i" eq_i ineq_i]
        non_valid_subset_dropped [of "p ! j" eq_j ineq_j]
      by blast
    then show "insert 0 (abs ` (non_valid_coefficients (p ! i) eq_i ineq_i
                                  \<union> non_valid_coefficients (p ! j) eq_j ineq_j))
          \<subseteq> insert 0 (abs ` (dropped_coefficients (p ! i) eq_i ineq_i
                                  \<union> dropped_coefficients (p ! j) eq_j ineq_j))"
      by blast
    show "insert 0 (abs ` (non_valid_coefficients (p ! i) eq_i ineq_i
                                  \<union> non_valid_coefficients (p ! j) eq_j ineq_j)) \<noteq> {}"
      by simp
    show "finite (insert 0 (abs ` (dropped_coefficients (p ! i) eq_i ineq_i
                                  \<union> dropped_coefficients (p ! j) eq_j ineq_j)))"
      by (simp add: dropped_coefficients_finite)
  qed
  with cap show "w_max (wraps_init ops mat p i j eq_i ineq_i eq_j ineq_j)
          \<le> Max (insert 0 (abs ` (dropped_coefficients (p ! i) eq_i ineq_i
                                  \<union> dropped_coefficients (p ! j) eq_j ineq_j)))"
    by simp
next
  assume "\<not> coalesce_bounded_wrapping ops"
  then show "\<not> w_bound (wraps_init ops mat p i j eq_i ineq_i eq_j ineq_j)"
    by (simp add: wraps_init_def Let_def)
qed

theorem C8_wraps_discarded_witness:
  "add_wraps wrap_ops \<lparr> w_bound = False, w_mat = [[3, 1]], w_max = 0 \<rparr>
      (wrap_bmap [[1, 1], [0, 5]]) () [3, 1] []
     = Some \<lparr> w_bound = False, w_mat = [], w_max = 0 \<rparr>
   \<and> add_wraps wrap_ops \<lparr> w_bound = True, w_mat = [[3, 1]], w_max = 2 \<rparr>
      (wrap_bmap [[1, 1], [2, 5]]) () [3, 1] []
     = Some \<lparr> w_bound = True, w_mat = [], w_max = 2 \<rparr>
   \<and> w_max (wraps_init wrap_ops [] [wrap_bmap [[1, 1], [2, 5]], wrap_bmap [[0, - 3], [0, 7]]] 0 1
              [] [STATUS_VALID, STATUS_REDUNDANT] [] [STATUS_CUT, STATUS_VALID]) = 3
   \<and> (3::int) \<le> 5"
proof -
  have c1: "computed_wraps wrap_ops (wrap_bmap [[1, 1], [0, 5]]) () [3, 1] []
            = [Some [1, 1]] @ Some [3, 1] # []"
    by code_simp
  have c2: "computed_wraps wrap_ops (wrap_bmap [[1, 1], [2, 5]]) () [3, 1] []
            = [Some [1, 1]] @ Some [2, 5] # []"
    by code_simp
  have opt: "coalesce_bounded_wrapping wrap_ops"
    by (simp add: wrap_ops_def simple_ops_def)
  have n1: "non_valid_coefficients (wrap_bmap [[1, 1], [2, 5]]) [] [STATUS_VALID, STATUS_REDUNDANT]
            = {}"
    by (simp add: non_valid_coefficients_def wrap_bmap_def)
  have n2: "non_valid_coefficients (wrap_bmap [[0, - 3], [0, 7]]) [] [STATUS_CUT, STATUS_VALID]
            = {- 3}"
    by (simp add: non_valid_coefficients_def wrap_bmap_def)
  have d1: "dropped_coefficients (wrap_bmap [[1, 1], [2, 5]]) [] [STATUS_VALID, STATUS_REDUNDANT]
            = {5}"
    by (simp add: dropped_coefficients_def wrap_bmap_def)
  have d2: "dropped_coefficients (wrap_bmap [[0, - 3], [0, 7]]) [] [STATUS_CUT, STATUS_VALID]
            = {- 3}"
    by (simp add: dropped_coefficients_def wrap_bmap_def)
  note inst = C8_wraps_discarded
       [where ops = wrap_ops and tab = "()" and bound = "[3, 1]" and sset = "[]"
          and pre = "[Some [1, 1]]" and post = "[]" and mat = "[]"
          and p = "[wrap_bmap [[1, 1], [2, 5]], wrap_bmap [[0, - 3], [0, 7]]]"
          and i = 0 and j = 1 and eq_i = "[]" and eq_j = "[]"
          and ineq_i = "[STATUS_VALID, STATUS_REDUNDANT]"
          and ineq_j = "[STATUS_CUT, STATUS_VALID]"]
  from inst [where bmap = "wrap_bmap [[1, 1], [0, 5]]" and r = "[3, 1]"
               and wraps = "\<lparr> w_bound = False, w_mat = [[3, 1]], w_max = 0 \<rparr>"]
    inst [where bmap = "wrap_bmap [[1, 1], [2, 5]]" and r = "[2, 5]"
               and wraps = "\<lparr> w_bound = True, w_mat = [[3, 1]], w_max = 2 \<rparr>"]
  show ?thesis
    by (simp add: c1 c2 opt n1 n2 d1 d2)
qed

section \<open>Scheduler: the carry LP and the outcome of \<open>carry_dependences\<close>\<close>

lemma lp_row_snoc:
  "lp_row tot (es @ [(i, v)]) = (lp_row tot es)[i := v]"
  by (simp add: lp_row_def)

lemma length_lp_row [simp]: "length (lp_row tot es) = 1 + tot"
proof (induction es rule: rev_induct)
  case Nil
  then show ?case by (simp add: lp_row_def)
next
  case (snoc x xs)
  obtain i v where x: "x = (i, v)" by (cases x)
  show ?case unfolding x lp_row_snoc using snoc by simp
qed




lemma fold_opt_invariant:
  assumes "fold_opt f xs s = Some s'" and "P s"
    and "\<And>x t t'. P t \<Longrightarrow> f x t = Some t' \<Longrightarrow> P t'"
  shows "P s'"
  using assms(1,2)
proof (induction xs arbitrary: s)
  case Nil
  then show ?case by simp
next
  case (Cons x xs)
  then obtain t where t: "f x s = Some t" and r: "fold_opt f xs t = Some s'"
    by (auto split: option.splits)
  from assms(3) [OF Cons.prems(2) t] have "P t" .
  from Cons.IH [OF r this] show ?case .
qed

lemma take_length_eq_iff: "(take (length a) b = a) = (\<exists>xs. b = a @ xs)"
proof
  assume t: "take (length a) b = a"
  have "b = take (length a) b @ drop (length a) b" by simp
  then have "b = a @ drop (length a) b" unfolding t .
  then show "\<exists>xs. b = a @ xs" ..
next
  assume "\<exists>xs. b = a @ xs"
  then show "take (length a) b = a" by auto
qed

lemma lp_extends_refl: "lp_extends lp lp"
  by (simp add: lp_extends_def)

lemma lp_extends_add: "lp_extends lp lp' \<Longrightarrow> lp_extends lp (lp_add lp' rows)"
  unfolding lp_extends_def take_length_eq_iff by (auto simp: lp_add_def)



lemma lp_extends_trans:
  "lp_extends a b \<Longrightarrow> lp_extends b c \<Longrightarrow> lp_extends a c"
  unfolding lp_extends_def take_length_eq_iff by auto

lemma add_carry_constraints_lp:
  assumes "add_carry_constraints ops ij st = Some st'"
  shows "lp_extends (g_lp (fst st)) (g_lp (fst st')) \<and> fst st' = (fst st) \<lparr> g_lp := g_lp (fst st') \<rparr>
         \<and> snd st' = snd st + 1"
  using assms
  unfolding add_carry_constraints_def add_intra_constraints_def add_inter_constraints_def Let_def
    isl_basic_set_add_constraints_dim_map_def
  by (auto split: option.splits if_splits intro!: lp_extends_add lp_extends_refl)

lemma add_all_constraints_lp:
  assumes "add_all_constraints ops graph = Some graph'"
  shows "lp_extends (g_lp graph) (g_lp graph') \<and> graph' = graph \<lparr> g_lp := g_lp graph' \<rparr>"
proof -
  let ?P = "\<lambda>st :: 'a isl_sched_graph \<times> nat.
              lp_extends (g_lp graph) (g_lp (fst st)) \<and> fst st = graph \<lparr> g_lp := g_lp (fst st) \<rparr>"
  from assms obtain st where
    f: "fold_opt (add_carry_constraints ops) (carry_edge_maps ops graph) (graph, 0) = Some st"
    and g: "graph' = fst st"
    unfolding add_all_constraints_def by (auto split: option.splits)
  have "?P st"
  proof (rule fold_opt_invariant [where P = ?P, OF f])
    show "?P (graph, 0)" by (simp add: lp_extends_refl)
  next
    fix x t t'
    assume p: "?P t" and s: "add_carry_constraints ops x t = Some t'"
    note a = add_carry_constraints_lp [OF s]
    from p have e: "lp_extends (g_lp graph) (g_lp (fst t))" and r: "fst t = graph \<lparr> g_lp := g_lp (fst t) \<rparr>"
      by blast+
    from a have e': "lp_extends (g_lp (fst t)) (g_lp (fst t'))"
      and r': "fst t' = (fst t) \<lparr> g_lp := g_lp (fst t') \<rparr>" by blast+
    have "fst t' = graph \<lparr> g_lp := g_lp (fst t') \<rparr>" by (subst r', subst r, simp)
    with lp_extends_trans [OF e e'] show "?P t'" by blast
  qed
  then show ?thesis unfolding g .
qed












lemma isl_dim_map_range_Suc:
  "isl_dim_map_range m dp ds sp ss (Suc n) sg
     = (isl_dim_map_range m dp ds sp ss n sg)[1 + dp + ds * n := (1 + sp + ss * n, sg)]"
  by (simp add: isl_dim_map_range_def)

lemma isl_dim_map_range_length [simp]: "length (isl_dim_map_range m dp ds sp ss n sg) = length m"
  by (induction n) (simp_all add: isl_dim_map_range_Suc, simp add: isl_dim_map_range_def)






























section \<open>Scheduler: all nodes have the same number of schedule rows\<close>

lemma map_update_same:
  assumes "f y = f (xs ! i)"
  shows "map f (xs[i := y]) = map f xs"
proof (rule nth_equalityI)
  show "length (map f (xs[i := y])) = length (map f xs)" by simp
next
  fix k assume "k < length (map f (xs[i := y]))"
  then have k: "k < length xs" by simp
  show "map f (xs[i := y]) ! k = map f xs ! k"
  proof (cases "k = i")
    case True
    with k assms show ?thesis by simp
  next
    case False
    with k show ?thesis by simp
  qed
qed

lemma fold_err_invariant:
  assumes "fold_err f xs s = Inr s'" and "P s"
    and "\<And>x t t'. P t \<Longrightarrow> f x t = Inr t' \<Longrightarrow> P t'"
  shows "P s'"
  using assms(1,2)
proof (induction xs arbitrary: s)
  case Nil
  then show ?case by simp
next
  case (Cons x xs)
  then obtain t where t: "f x s = Inr t" and r: "fold_err f xs t = Inr s'"
    by (auto split: sum.splits)
  from assms(3) [OF Cons.prems(2) t] have "P t" .
  from Cons.IH [OF r this] show ?case .
qed

lemma foldl_invariant:
  assumes "P s" and "\<And>x t. P t \<Longrightarrow> P (f t x)"
  shows "P (foldl f s xs)"
  using assms(1)
proof (induction xs arbitrary: s)
  case Nil
  then show ?case by simp
next
  case (Cons x xs)
  show ?case using Cons.IH [OF assms(2) [OF Cons.prems]] by simp
qed

subsection \<open>Operations that leave the rows alone\<close>

lemma detect_ccs_loop_sched:
  "detect_ccs_loop outer order n scc nodes = Some (nodes', scc')
     \<Longrightarrow> map nd_sched nodes' = map nd_sched nodes"
proof (induction outer order n scc nodes rule: detect_ccs_loop.induct)
  case (1 outer n scc nodes)
  then show ?case by (simp split: if_splits)
next
  case (2 outer x order n scc nodes)
  show ?case
  proof (cases "outer \<and> n = 0")
    case True
    with 2(3) show ?thesis by simp
  next
    case f: False
    show ?thesis
    proof (cases "x \<noteq> - 1")
      case True
      with f 2(3) have "detect_ccs_loop False order (n - 1) scc
          (nodes[nat x := (nodes ! nat x) \<lparr> nd_scc := scc \<rparr>]) = Some (nodes', scc')"
        by (auto split: if_splits)
      from 2(1) [OF f True this] show ?thesis by (simp add: map_update_same)
    next
      case False
      with f 2(3) have "detect_ccs_loop True order n (scc + 1) nodes = Some (nodes', scc')"
        by (auto split: if_splits)
      from 2(2) [OF f False this] show ?thesis .
    qed
  qed
qed

lemma shape_cong:
  "map nd_sched (g_node g') = map nd_sched (g_node g) \<Longrightarrow> g_n_total_row g' = g_n_total_row g
     \<Longrightarrow> g_band_start g' = g_band_start g \<Longrightarrow> rows_shape g' = rows_shape g"
proof -
  assume a: "map nd_sched (g_node g') = map nd_sched (g_node g)"
    and b: "g_n_total_row g' = g_n_total_row g" and c: "g_band_start g' = g_band_start g"
  have "map node_rows (g_node g') = map (\<lambda>m. isl_mat_rows m) (map nd_sched (g_node g'))"
    by (simp add: node_rows_def comp_def)
  also have "\<dots> = map node_rows (g_node g)" unfolding a by (simp add: node_rows_def comp_def)
  finally show ?thesis using b c by (simp add: rows_shape_def)
qed

lemma frame_refl: "rows_frame g g" by (simp add: rows_frame_def)

lemma frame_trans: "rows_frame a b \<Longrightarrow> rows_frame b c \<Longrightarrow> rows_frame a c" by (simp add: rows_frame_def)

lemma detect_ccs_frame: "detect_ccs ops g weak = Some g' \<Longrightarrow> rows_frame g g'"
  unfolding detect_ccs_def
  by (auto simp: rows_frame_def split: option.splits dest: detect_ccs_loop_sched)

lemma node_update_cmap_sched: "node_update_cmap ops node = Some node' \<Longrightarrow> nd_sched node' = nd_sched node"
  unfolding node_update_cmap_def Let_def by (auto split: option.splits if_splits)

lemma compute_maxvar_frame:
  assumes "compute_maxvar ops g = Some g'"
  shows "rows_frame g g'"
proof -
  let ?f = "\<lambda>i g.
         case node_update_cmap ops (g_node g ! i) of
           None \<Rightarrow> None
         | Some node \<Rightarrow>
             (let nvar = int (nd_nvar node) + g_n_row g - nd_rank node in
              Some (g \<lparr> g_node := (g_node g)[i := node],
                        g_maxvar := (if nvar > g_maxvar g then nvar else g_maxvar g) \<rparr>))"
  from assms have f: "fold_opt ?f [0 ..< length (g_node g)] (g \<lparr> g_maxvar := 0 \<rparr>) = Some g'"
    unfolding compute_maxvar_def .
  show ?thesis
  proof (rule fold_opt_invariant [where P = "rows_frame g", OF f])
    show "rows_frame g (g \<lparr> g_maxvar := 0 \<rparr>)" by (simp add: rows_frame_def)
  next
    fix x t t' assume p: "rows_frame g t" and s: "?f x t = Some t'"
    from s obtain node where n: "node_update_cmap ops (g_node t ! x) = Some node"
      and t': "t' = t \<lparr> g_node := (g_node t)[x := node],
                        g_maxvar := (if int (nd_nvar node) + g_n_row t - nd_rank node > g_maxvar t
                                     then int (nd_nvar node) + g_n_row t - nd_rank node else g_maxvar t) \<rparr>"
      by (auto simp: Let_def split: option.splits)
    have "rows_frame t t'" unfolding t' rows_frame_def
      using node_update_cmap_sched [OF n] by (simp add: map_update_same)
    with p show "rows_frame g t'" by (rule frame_trans)
  qed
qed

lemma sort_sccs_frame: "rows_frame g (sort_sccs g)"
  by (simp add: sort_sccs_def rows_frame_def Let_def)

lemma wcc_prepare_frame:
  assumes "wcc_prepare ops g = Some g'"
  shows "rows_frame g g'"
proof -
  from assms obtain g1 where d: "detect_ccs ops g False = Some g1"
    and c: "compute_maxvar ops (sort_sccs g1) = Some g'"
    unfolding wcc_prepare_def detect_sccs_def by (auto split: option.splits)
  from detect_ccs_frame [OF d] sort_sccs_frame [of g1] compute_maxvar_frame [OF c]
  show ?thesis by (blast intro: frame_trans)
qed

lemma same_nodes_refl: "same_nodes g g" by (simp add: same_nodes_def)

lemma same_nodes_trans: "same_nodes a b \<Longrightarrow> same_nodes b c \<Longrightarrow> same_nodes a c"
  by (simp add: same_nodes_def)

lemma same_nodes_frame: "same_nodes g g' \<Longrightarrow> rows_frame g g'"
  by (simp add: same_nodes_def rows_frame_def)

lemma setup_lp_nodes_sched:
  "setup_lp_nodes ops ks tot nodes = Some (nodes', tot') \<Longrightarrow> map nd_sched nodes' = map nd_sched nodes"
proof (induction ks arbitrary: tot nodes)
  case Nil
  then show ?case by simp
next
  case (Cons k ks)
  from Cons.prems obtain node where n: "node_update_cmap ops (nodes ! k) = Some node"
    and r: "setup_lp_nodes ops ks (tot + (1 + 2 * (nd_nparam node + nd_nvar node)))
              (nodes[k := node \<lparr> nd_start := tot \<rparr>]) = Some (nodes', tot')"
    by (auto split: option.splits)
  from Cons.IH [OF r] node_update_cmap_sched [OF n] show ?case by (simp add: map_update_same)
qed

lemma add_bound_coefficient_constraints_same:
  "same_nodes g (add_bound_coefficient_constraints opts g)"
  unfolding add_bound_coefficient_constraints_def Let_def by (simp add: same_nodes_def)

lemma add_all_validity_constraints_same:
  assumes "add_all_validity_constraints ops uc g = Some g'"
  shows "same_nodes g g'"
proof -
  let ?f1 = "\<lambda>i g.
              let edge = g_edge g ! i in
              if \<not> ed_validity edge \<and> \<not> edge_is_local edge uc then Some g
              else if ed_src edge \<noteq> ed_dst edge then Some g
              else add_intra_validity_constraints ops i g"
  let ?f2 = "\<lambda>i g.
              let edge = g_edge g ! i in
              if \<not> ed_validity edge \<and> \<not> edge_is_local edge uc then Some g
              else if ed_src edge = ed_dst edge then Some g
              else add_inter_validity_constraints ops i g"
  from assms obtain g1 where a: "fold_opt ?f1 [0 ..< length (g_edge g)] g = Some g1"
    and b: "fold_opt ?f2 [0 ..< length (g_edge g1)] g1 = Some g'"
    unfolding add_all_validity_constraints_def by (auto split: option.splits)
  have s1: "same_nodes g g1"
  proof (rule fold_opt_invariant [where P = "same_nodes g", OF a])
    show "same_nodes g g" by (rule same_nodes_refl)
  next
    fix x t t' assume p: "same_nodes g t" and s: "?f1 x t = Some t'"
    then show "same_nodes g t'"
      by (auto simp: Let_def same_nodes_def add_intra_validity_constraints_def
          split: if_splits option.splits)
  qed
  have s2: "same_nodes g1 g'"
  proof (rule fold_opt_invariant [where P = "same_nodes g1", OF b])
    show "same_nodes g1 g1" by (rule same_nodes_refl)
  next
    fix x t t' assume p: "same_nodes g1 t" and s: "?f2 x t = Some t'"
    then show "same_nodes g1 t'"
      by (auto simp: Let_def same_nodes_def add_inter_validity_constraints_def
          split: if_splits option.splits)
  qed
  from s1 s2 show ?thesis by (rule same_nodes_trans)
qed

lemma add_all_proximity_constraints_same:
  assumes "add_all_proximity_constraints ops uc g = Some g'"
  shows "same_nodes g g'"
proof (rule fold_opt_invariant [where P = "same_nodes g",
      OF assms [unfolded add_all_proximity_constraints_def]])
  show "same_nodes g g" by (rule same_nodes_refl)
next
  fix x t t'
  assume p: "same_nodes g t"
    and s: "(let edge = g_edge t ! x; local = edge_is_local edge uc in
         if \<not> ed_proximity edge \<and> \<not> local then Some t
         else
           (case add_proximity_constraints ops x 1 local t of
              None \<Rightarrow> None
            | Some g1 \<Rightarrow>
                if ed_validity edge \<or> local then Some g1
                else add_proximity_constraints ops x (- 1) False g1)) = Some t'"
  then show "same_nodes g t'"
    by (auto simp: Let_def same_nodes_def add_proximity_constraints_def
        split: if_splits option.splits)
qed

lemma setup_lp_frame:
  assumes "setup_lp ops opts uc g = Some g'"
  shows "rows_frame g g'"
proof -
  from assms obtain nodes tot lp where
    n: "setup_lp_nodes ops (take (length (g_node g)) (g_sorted g))
          (4 + 2 * sp_nparam (nd_dim (g_node g ! 0))) (g_node g) = Some (nodes, tot)"
    and r: "(case add_all_validity_constraints ops uc
                (add_bound_coefficient_constraints opts (g \<lparr> g_node := nodes, g_lp := lp \<rparr>)) of
             None \<Rightarrow> None
           | Some graph2 \<Rightarrow> add_all_proximity_constraints ops uc graph2) = Some g'"
    unfolding setup_lp_def Let_def by (auto split: option.splits)
  from r obtain g2 where v: "add_all_validity_constraints ops uc
                (add_bound_coefficient_constraints opts (g \<lparr> g_node := nodes, g_lp := lp \<rparr>)) = Some g2"
    and p: "add_all_proximity_constraints ops uc g2 = Some g'"
    by (auto split: option.splits)
  have f0: "rows_frame g (g \<lparr> g_node := nodes, g_lp := lp \<rparr>)"
    using setup_lp_nodes_sched [OF n] by (simp add: rows_frame_def)
  from add_bound_coefficient_constraints_same [of "g \<lparr> g_node := nodes, g_lp := lp \<rparr>" opts]
    add_all_validity_constraints_same [OF v] add_all_proximity_constraints_same [OF p]
  have "same_nodes (g \<lparr> g_node := nodes, g_lp := lp \<rparr>) g'" by (blast intro: same_nodes_trans)
  from frame_trans [OF f0 same_nodes_frame [OF this]] show ?thesis .
qed

lemma check_conflict_same: "same_nodes g (check_conflict con g)"
proof -
  let ?f = "\<lambda>t edge.
               if \<not> ed_validity edge then t
               else if ed_src edge = ed_dst edge then t
               else if nd_scc (g_node g ! ed_src edge) = nd_scc (g_node g ! ed_dst edge) then t
               else if ed_start edge > con - int (length (lp_eq (g_lp g))) then t
               else if ed_end edge \<le> con - int (length (lp_eq (g_lp g))) then t
               else t \<lparr> g_src_scc := nd_scc (g_node g ! ed_src edge),
                        g_dst_scc := nd_scc (g_node g ! ed_dst edge) \<rparr>"
  have "same_nodes g (foldl ?f g (g_edge g))"
    by (rule foldl_invariant [where P = "same_nodes g"]) (simp_all add: same_nodes_def)
  then show ?thesis unfolding check_conflict_def Let_def by (simp add: same_nodes_refl)
qed

lemma solve_lp_same: "same_nodes g (fst (solve_lp ops g))"
proof -
  have "\<And>cons. same_nodes g (foldl (\<lambda>g con. check_conflict con g) g cons)"
    by (rule foldl_invariant [where P = "same_nodes g"])
       (auto intro: same_nodes_refl same_nodes_trans check_conflict_same)
  then show ?thesis unfolding solve_lp_def Let_def by simp
qed

lemma graph_remove_edge_same: "same_nodes g (graph_remove_edge g e)"
  by (simp add: graph_remove_edge_def same_nodes_def)

lemma update_edge_same: "update_edge ops e g = Some g' \<Longrightarrow> same_nodes g g'"
  unfolding update_edge_def Let_def
  by (auto simp: same_nodes_def graph_remove_edge_def split: option.splits if_splits)

lemma update_edges_same:
  assumes "update_edges ops g = Some g'"
  shows "same_nodes g g'"
proof (rule fold_opt_invariant [where P = "same_nodes g", OF assms [unfolded update_edges_def]])
  show "same_nodes g g" by (rule same_nodes_refl)
next
  fix x t t' assume "same_nodes g t" and "update_edge ops x t = Some t'"
  then show "same_nodes g t'" by (blast intro: same_nodes_trans update_edge_same)
qed

lemma clear_local_edges_same: "same_nodes g (clear_local_edges g)"
  by (simp add: clear_local_edges_def same_nodes_def)

lemma has_adjacent_true_conditions_same:
  assumes "has_adjacent_true_conditions ops g src snk = Some res"
  shows "same_nodes g (snd res)"
proof (rule fold_opt_invariant [where P = "\<lambda>st. same_nodes g (snd st)",
      OF assms [unfolded has_adjacent_true_conditions_def]])
  show "same_nodes g (snd (False, g))" by (simp add: same_nodes_refl)
next
  fix x and t t' :: "bool \<times> 'a isl_sched_graph"
  assume p: "same_nodes g (snd t)"
    and s: "(let g = snd t; edge = g_edge g ! x in
         if \<not> ed_condition edge then Some t
         else if ed_local edge then Some t
         else
           (case ed_tagged_condition edge of
              None \<Rightarrow> None
            | Some condition \<Rightarrow>
                (case (case domain_intersects ops condition snk of
                         None \<Rightarrow> None
                       | Some adjacent \<Rightarrow>
                           if adjacent then Some True
                           else range_intersects ops condition src) of
                   None \<Rightarrow> None
                 | Some adjacent \<Rightarrow>
                     if \<not> adjacent then Some t
                     else
                       (let g1 = g \<lparr> g_edge := (g_edge g)[x := edge \<lparr> ed_local := True \<rparr>] \<rparr> in
                        case is_condition_false ops g1 (g_edge g1 ! x) of
                          None \<Rightarrow> None
                        | Some local \<Rightarrow> Some (if \<not> local then True else fst t, g1))))) = Some t'"
  then show "same_nodes g (snd t')"
    by (auto simp: Let_def same_nodes_def split: if_splits option.splits)
qed

lemma has_violated_conditional_constraint_same:
  assumes "has_violated_conditional_constraint ops g = Some res"
  shows "same_nodes g (snd res)"
  using assms unfolding has_violated_conditional_constraint_def
  by (auto split: option.splits if_splits intro: same_nodes_refl has_adjacent_true_conditions_same)

lemma setup_carry_nodes_sched:
  "map nd_sched (fst (setup_carry_nodes ks tot nodes)) = map nd_sched nodes"
proof (induction ks arbitrary: tot nodes)
  case Nil
  then show ?case by simp
next
  case (Cons k ks)
  show ?case using Cons.IH by (simp add: map_update_same)
qed

lemma setup_carry_lp_frame:
  assumes "setup_carry_lp ops opts g = Some g'"
  shows "rows_frame g g' \<and> g_scc g' = g_scc g"
proof -
  define nodes where "nodes = fst (setup_carry_nodes (take (length (g_node g)) (g_sorted g))
                                     (3 + carry_n_edge ops g) (g_node g))"
  from assms obtain lp where
    a: "add_all_constraints ops (add_bound_coefficient_constraints opts (g \<lparr> g_node := nodes, g_lp := lp \<rparr>)) = Some g'"
    unfolding setup_carry_lp_def Let_def nodes_def by blast
  from add_all_constraints_lp [OF a]
  have e: "g' = (add_bound_coefficient_constraints opts (g \<lparr> g_node := nodes, g_lp := lp \<rparr>)) \<lparr> g_lp := g_lp g' \<rparr>"
    by blast
  have "same_nodes (g \<lparr> g_node := nodes, g_lp := lp \<rparr>) g'"
    using add_bound_coefficient_constraints_same [of "g \<lparr> g_node := nodes, g_lp := lp \<rparr>" opts]
    by (subst e) (simp add: same_nodes_def)
  then show ?thesis using setup_carry_nodes_sched [of "take (length (g_node g)) (g_sorted g)"
        "3 + carry_n_edge ops g" "g_node g"]
    by (simp add: same_nodes_def rows_frame_def nodes_def)
qed

subsection \<open>Operations that add or drop rows\<close>

lemma rows_set_element [simp]: "isl_mat_rows (isl_mat_set_element m r c v) = isl_mat_rows m"
  by (simp add: isl_mat_rows_def isl_mat_set_element_def)

lemma cols_set_element [simp]: "m_n_col (isl_mat_set_element m r c v) = m_n_col m"
  by (simp add: isl_mat_set_element_def)

lemma rows_add_zero_rows [simp]:
  "isl_mat_rows (isl_mat_add_zero_rows m n) = isl_mat_rows m + int (nat n)"
  by (simp add: isl_mat_rows_def isl_mat_add_zero_rows_def)

lemma rows_add_rows [simp]: "isl_mat_rows (isl_mat_add_rows m n) = isl_mat_rows m + int (nat n)"
  by (simp add: isl_mat_add_rows_def)

lemma rows_scale_down_row [simp]: "isl_mat_rows (isl_mat_scale_down_row m r g) = isl_mat_rows m"
  by (simp add: isl_mat_rows_def isl_mat_scale_down_row_def)

lemma rows_foldl_set_element [simp]:
  "isl_mat_rows (foldl (\<lambda>m j. isl_mat_set_element m r (c j) (v j)) m0 js) = isl_mat_rows m0"
  by (induction js arbitrary: m0) simp_all

lemma rows_drop_rows:
  assumes "0 \<le> r" and "0 \<le> n" and "r + n \<le> isl_mat_rows m"
  shows "isl_mat_rows (isl_mat_drop_rows m r n) = isl_mat_rows m - n"
proof -
  from assms obtain a b where r: "r = int a" and n: "n = int b"
    by (metis nonneg_int_cases)
  from assms(3) have "a + b \<le> length (m_rows m)" unfolding r n isl_mat_rows_def by simp
  then show ?thesis unfolding r n by (simp add: isl_mat_rows_def isl_mat_drop_rows_def min_def)
qed

lemma update_schedule_node_rows:
  assumes "i < length (snd st)"
  shows "map node_rows (snd (update_schedule_node ntr nb uc c i st))
           = (map node_rows (snd st))[i := node_rows (snd st ! i) + 1]"
  using assms unfolding update_schedule_node_def Let_def
  by (simp add: map_update node_rows_def)

lemma update_schedule_fold_rows:
  assumes "j \<le> length nodes"
  shows "map node_rows (snd (foldl (\<lambda>st i. update_schedule_node ntr nb uc c i st) (v, nodes) [0 ..< j]))
           = map (\<lambda>x. x + 1) (take j (map node_rows nodes)) @ drop j (map node_rows nodes)"
  using assms
proof (induction j)
  case 0
  then show ?case by simp
next
  case (Suc j)
  let ?st = "foldl (\<lambda>st i. update_schedule_node ntr nb uc c i st) (v, nodes) [0 ..< j]"
  from Suc have ih: "map node_rows (snd ?st)
           = map (\<lambda>x. x + 1) (take j (map node_rows nodes)) @ drop j (map node_rows nodes)"
    and j: "j < length nodes" by simp_all
  from ih have len: "length (snd ?st) = length nodes"
    using j by (metis length_map length_append length_take length_drop
        le_add_diff_inverse less_imp_le_nat min.absorb2)
  have nj: "node_rows (snd ?st ! j) = node_rows (nodes ! j)"
  proof -
    have "node_rows (snd ?st ! j) = map node_rows (snd ?st) ! j" using j len by simp
    also have "\<dots> = node_rows (nodes ! j)" unfolding ih using j by (simp add: nth_append)
    finally show ?thesis .
  qed
  have "map node_rows (snd (foldl (\<lambda>st i. update_schedule_node ntr nb uc c i st) (v, nodes) [0 ..< Suc j]))
      = (map node_rows (snd ?st))[j := node_rows (snd ?st ! j) + 1]"
    using update_schedule_node_rows [of j ?st ntr nb uc c] j len by simp
  also have "\<dots> = map (\<lambda>x. x + 1) (take (Suc j) (map node_rows nodes)) @ drop (Suc j) (map node_rows nodes)"
    unfolding ih nj using j
    by (simp add: list_update_append take_Suc_conv_app_nth upd_conv_take_nth_drop
        Cons_nth_drop_Suc [symmetric])
  finally show ?case .
qed

lemma update_schedule_rows:
  assumes "update_schedule g sol uc c = Inr g'"
  shows "map node_rows (g_node g') = map (\<lambda>x. x + 1) (map node_rows (g_node g))"
    and "g_n_total_row g' = g_n_total_row g + 1"
    and "g_band_start g' = g_band_start g"
proof -
  from assms obtain v where
    g': "g' = g \<lparr> g_node := snd (foldl (\<lambda>st i. update_schedule_node (g_n_total_row g)
                                                    (g_n_band g) uc c i st)
                                           (v, g_node g) [0 ..< length (g_node g)]),
                         g_n_row := g_n_row g + 1,
                         g_n_total_row := g_n_total_row g + 1 \<rparr>"
    unfolding update_schedule_def by (auto split: option.splits if_splits)
  show "map node_rows (g_node g') = map (\<lambda>x. x + 1) (map node_rows (g_node g))"
    unfolding g' using update_schedule_fold_rows [of "length (g_node g)" "g_node g"] by simp
  show "g_n_total_row g' = g_n_total_row g + 1" unfolding g' by simp
  show "g_band_start g' = g_band_start g" unfolding g' by simp
qed

subsection \<open>The invariant\<close>

lemma uniform_rows_iff:
  "uniform_rows g = (\<forall>x \<in> set (map node_rows (g_node g)). x = g_n_total_row g)"
  by (simp add: uniform_rows_def list_all_iff)

lemma inv_eq_le: "inv_eq g \<Longrightarrow> inv_le g" by (simp add: inv_eq_def inv_le_def)

lemma frame_rows: "rows_frame g g' \<Longrightarrow> map node_rows (g_node g') = map node_rows (g_node g)"
  using shape_cong [of g' g] by (simp add: rows_frame_def rows_shape_def)

lemma frame_length: "rows_frame g g' \<Longrightarrow> length (g_node g') = length (g_node g)"
  by (drule frame_rows, drule arg_cong [where f = length]) simp

lemma frame_inv_le: "rows_frame g g' \<Longrightarrow> inv_le g \<Longrightarrow> inv_le g'"
  using frame_rows [of g g'] by (simp add: inv_le_def uniform_rows_iff rows_frame_def)

lemma frame_inv_eq: "rows_frame g g' \<Longrightarrow> inv_eq g \<Longrightarrow> inv_eq g'"
  using frame_rows [of g g'] by (simp add: inv_eq_def uniform_rows_iff rows_frame_def)

lemma frame_post: "rows_frame g g' \<Longrightarrow> rows_post g' h \<Longrightarrow> rows_post g h"
  using frame_length [of g g'] by (simp add: rows_post_def rows_frame_def)

lemma post_mono: "rows_post g h \<Longrightarrow> g_band_start g0 \<le> g_band_start g \<Longrightarrow>
    length (g_node g) = length (g_node g0) \<Longrightarrow> rows_post g0 h"
  by (simp add: rows_post_def)

lemma next_band_inv: "inv_le g \<Longrightarrow> inv_eq (next_band g)"
  by (simp add: inv_le_def inv_eq_def next_band_def uniform_rows_iff)

lemma update_schedule_inv:
  assumes "update_schedule g sol uc c = Inr g'" and "inv_le g"
  shows "inv_le g'" and "g_band_start g' = g_band_start g"
    and "length (g_node g') = length (g_node g)"
proof -
  note r = update_schedule_rows [OF assms(1)]
  show "inv_le g'" using assms(2) unfolding inv_le_def uniform_rows_iff r by auto
  show "g_band_start g' = g_band_start g" by (rule r(3))
  from r(1) show "length (g_node g') = length (g_node g)"
    by (metis length_map)
qed

lemma sort_statements_node_rows [simp]:
  "node_rows (sort_statements_node ntr nb node) = node_rows node + 1"
  by (simp add: sort_statements_node_def Let_def node_rows_def)

lemma sort_statements_post:
  assumes "sort_statements ops g = Inr g'" and "inv_le g"
  shows "rows_post g g'" and "g_n_total_row g \<le> g_n_total_row g'"
proof -
  have "rows_post g g' \<and> g_n_total_row g \<le> g_n_total_row g'"
  proof (cases "length (g_node g) \<le> 1")
    case True
    with assms show ?thesis by (simp add: sort_statements_def rows_post_def inv_le_def)
  next
    case False
    with assms(1) obtain g1 where u: "update_edges ops g = Some g1"
      and r: "(if length (g_edge g1) = 0 then Inr g1
             else
               (case detect_sccs ops g1 of
                  None \<Rightarrow> Inl Failure
                | Some graph2 \<Rightarrow>
                    if g_n_total_row graph2 \<ge> g_max_row graph2
                    then Inl (Internal ''too many schedule rows'')
                    else
                      Inr (next_band
                             (graph2 \<lparr> g_node := map (sort_statements_node (g_n_total_row graph2)
                                                        (g_n_band graph2)) (g_node graph2),
                                      g_n_total_row := g_n_total_row graph2 + 1 \<rparr>)))) = Inr g'"
      unfolding sort_statements_def by (auto split: option.splits)
    have f1: "rows_frame g g1" using update_edges_same [OF u] by (rule same_nodes_frame)
    show ?thesis
    proof (cases "length (g_edge g1) = 0")
      case True
      with r have "g' = g1" by simp
      with f1 assms(2) frame_inv_le [OF f1 assms(2)] frame_length [OF f1]
      show ?thesis by (simp add: rows_post_def inv_le_def rows_frame_def)
    next
      case False
      with r obtain g2 where d: "detect_sccs ops g1 = Some g2"
        and g': "g' = next_band
                             (g2 \<lparr> g_node := map (sort_statements_node (g_n_total_row g2)
                                                        (g_n_band g2)) (g_node g2),
                                      g_n_total_row := g_n_total_row g2 + 1 \<rparr>)"
        by (auto split: option.splits if_splits)
      have f2: "rows_frame g g2"
        using frame_trans [OF f1 detect_ccs_frame [OF d [unfolded detect_sccs_def]]] .
      from frame_inv_le [OF f2 assms(2)] have i2: "inv_le g2" .
      have "uniform_rows g'" using i2 unfolding g'
        by (simp add: uniform_rows_iff inv_le_def next_band_def comp_def)
      moreover have "g_n_total_row g' = g_n_total_row g + 1"
        unfolding g' using f2 by (simp add: next_band_def rows_frame_def)
      moreover have "length (g_node g') = length (g_node g)"
        unfolding g' using frame_length [OF f2] by (simp add: next_band_def)
      ultimately show ?thesis using assms(2) by (simp add: rows_post_def inv_le_def)
    qed
  qed
  then show "rows_post g g'" and "g_n_total_row g \<le> g_n_total_row g'" by blast+
qed

lemma split_scaled_node_rows [simp]:
  "node_rows (split_scaled_node row gg ntr nb node) = node_rows node + 1"
  by (simp add: split_scaled_node_def Let_def node_rows_def)

lemma split_scaled_inv:
  assumes "split_scaled opts g = Inr g'" and "inv_le g"
  shows "inv_le g'" and "g_band_start g \<le> g_band_start g'"
    and "length (g_node g') = length (g_node g)"
proof -
  have "inv_le g' \<and> g_band_start g \<le> g_band_start g' \<and> length (g_node g') = length (g_node g)"
  proof (cases "g' = g")
    case True
    with assms(2) show ?thesis by simp
  next
    case False
    with assms(1) obtain row gg where
      g': "g' = (next_band g) \<lparr> g_node := map (split_scaled_node row gg (g_n_total_row (next_band g))
                                             (g_n_band (next_band g))) (g_node (next_band g)),
                          g_n_total_row := g_n_total_row (next_band g) + 1 \<rparr>"
      unfolding split_scaled_def Let_def by (auto split: if_splits)
    show ?thesis using assms(2) unfolding g'
      by (simp add: inv_le_def uniform_rows_iff next_band_def comp_def)
  qed
  then show "inv_le g'" and "g_band_start g \<le> g_band_start g'"
    and "length (g_node g') = length (g_node g)" by blast+
qed

lemma reset_band_inv:
  assumes "inv_le g"
  shows "inv_eq (reset_band g)" and "g_band_start (reset_band g) = g_band_start g"
    and "length (g_node (reset_band g)) = length (g_node g)"
proof -
  have "\<And>node. node \<in> set (g_node g) \<Longrightarrow>
      isl_mat_rows (isl_mat_drop_rows (nd_sched node) (g_band_start g)
                      (g_n_total_row g - g_band_start g)) = g_band_start g"
  proof -
    fix node assume "node \<in> set (g_node g)"
    with assms have r: "isl_mat_rows (nd_sched node) = g_n_total_row g"
      by (simp add: inv_le_def uniform_rows_def list_all_iff node_rows_def)
    from assms have "0 \<le> g_band_start g" "0 \<le> g_n_total_row g - g_band_start g"
      by (simp_all add: inv_le_def)
    from rows_drop_rows [OF this, of "nd_sched node"] r
    show "isl_mat_rows (isl_mat_drop_rows (nd_sched node) (g_band_start g)
                      (g_n_total_row g - g_band_start g)) = g_band_start g" by simp
  qed
  then show "inv_eq (reset_band g)" using assms
    by (simp add: inv_eq_def inv_le_def reset_band_def Let_def uniform_rows_def list_all_iff
        node_rows_def)
  show "g_band_start (reset_band g) = g_band_start g" by (simp add: reset_band_def Let_def)
  show "length (g_node (reset_band g)) = length (g_node g)" by (simp add: reset_band_def Let_def)
qed

lemma node_rows_updates [simp]:
  "node_rows (node \<lparr> nd_band_id := a \<rparr>) = node_rows node"
  "node_rows (node \<lparr> nd_band := b \<rparr>) = node_rows node"
  "node_rows (node \<lparr> nd_scc := c \<rparr>) = node_rows node"
  by (simp_all add: node_rows_def)

lemma split_row_node_rows [simp]:
  "node_rows (split_row_node src_scc ntr nb node) = node_rows node + 1"
  by (simp add: split_row_node_def Let_def node_rows_def)

lemma split_row_node_scc [simp]: "nd_scc (split_row_node src_scc ntr nb node) = nd_scc node"
  by (simp add: split_row_node_def Let_def)

lemma split_prepare_inv:
  assumes "split_prepare g = Inr res" and "inv_le g"
  shows "inv_eq (fst res)" and "g_band_start g \<le> g_band_start (fst res)"
    and "length (g_node (fst res)) = length (g_node g)"
    and "fst (snd res) = length (filter (\<lambda>node. nd_scc node \<le> g_src_scc (fst res)) (g_node (fst res)))"
proof -
  note rb = reset_band_inv [OF assms(2)]
  define g1 where "g1 = reset_band g"
  define nodes where "nodes = map (split_row_node (g_src_scc g1) (g_n_total_row g1) (g_n_band g1)) (g_node g1)"
  define g2 where "g2 = next_band (g1 \<lparr> g_node := nodes, g_n_total_row := g_n_total_row g1 + 1 \<rparr>)"
  from assms(1) have res: "fst res = g2 \<lparr> g_node := map (\<lambda>node.
                                   if nd_scc node > g_src_scc g1
                                   then node \<lparr> nd_band_id := (nd_band_id node)[nat (g_n_band g2) :=
                                        int (length (filter (\<lambda>node. nd_scc node \<le> g_src_scc g1) (g_node g1)))] \<rparr>
                                   else node)
                                 (g_node g2) \<rparr>"
    and n: "fst (snd res) = length (filter (\<lambda>node. nd_scc node \<le> g_src_scc g1) (g_node g1))"
    unfolding split_prepare_def Let_def g1_def nodes_def g2_def by (auto split: if_splits)
  have src: "g_src_scc (fst res) = g_src_scc g1" unfolding res g2_def by (simp add: next_band_def)
  have rows: "map node_rows (g_node (fst res)) = map (\<lambda>x. x + 1) (map node_rows (g_node g1))"
    unfolding res g2_def nodes_def by (simp add: next_band_def comp_def if_distrib cong: if_cong)
  have sccs: "map nd_scc (g_node (fst res)) = map nd_scc (g_node g1)"
    unfolding res g2_def nodes_def by (simp add: next_band_def comp_def)
  have ntr: "g_n_total_row (fst res) = g_n_total_row g1 + 1"
    and bs: "g_band_start (fst res) = g_n_total_row g1 + 1"
    unfolding res g2_def by (simp_all add: next_band_def)
  show "inv_eq (fst res)" using rb(1) unfolding g1_def [symmetric]
    by (simp add: inv_eq_def uniform_rows_iff rows ntr bs)
  show "g_band_start g \<le> g_band_start (fst res)"
    using rb(1,2) unfolding g1_def [symmetric] bs by (simp add: inv_eq_def)
  show "length (g_node (fst res)) = length (g_node g)"
    using rb(3) arg_cong [OF rows, of length] unfolding g1_def [symmetric] by simp
  have "length (filter (\<lambda>node. nd_scc node \<le> g_src_scc g1) (g_node (fst res)))
      = length (filter (\<lambda>s. s \<le> g_src_scc g1) (map nd_scc (g_node (fst res))))"
    by (simp add: filter_map comp_def)
  also have "\<dots> = length (filter (\<lambda>node. nd_scc node \<le> g_src_scc g1) (g_node g1))"
    unfolding sccs by (simp add: filter_map comp_def)
  finally show "fst (snd res) = length (filter (\<lambda>node. nd_scc node \<le> g_src_scc (fst res)) (g_node (fst res)))"
    unfolding n src by simp
qed

lemma split_on_scc_inv:
  assumes "split_on_scc g = Inr g'" and "inv_le g"
  shows "inv_eq g'" and "g_band_start g \<le> g_band_start g'"
    and "length (g_node g') = length (g_node g)" and "g_scc g' = g_scc g"
proof -
  from assms(1) have g': "g' = next_band
               (g \<lparr> g_node := map (\<lambda>node.
                            let row = isl_mat_rows (nd_sched node) in
                            node \<lparr> nd_sched := isl_mat_set_element
                                                  (isl_mat_add_zero_rows (nd_sched node) 1) row 0 (nd_scc node),
                                   nd_band := (nd_band node)[nat (g_n_total_row g) := g_n_band g] \<rparr>)
                          (g_node g),
                        g_n_total_row := g_n_total_row g + 1 \<rparr>)"
    unfolding split_on_scc_def by (auto split: if_splits)
  show "inv_eq g'" using assms(2) unfolding g'
    by (simp add: inv_eq_def inv_le_def uniform_rows_iff next_band_def comp_def node_rows_def Let_def)
  show "g_band_start g \<le> g_band_start g'" using assms(2) unfolding g'
    by (simp add: inv_le_def next_band_def)
  show "length (g_node g') = length (g_node g)" unfolding g' by (simp add: next_band_def)
  show "g_scc g' = g_scc g" unfolding g' by (simp add: next_band_def)
qed

lemma component_prepare_inv:
  assumes "component_prepare opts g = Inr g'" and "inv_eq g"
  shows "inv_eq g'" and "g_band_start g \<le> g_band_start g'"
    and "length (g_node g') = length (g_node g)" and "g_scc g' = g_scc g"
proof -
  from assms(1) obtain g1 where
    a: "(if schedule_fuse_min opts \<or> schedule_separate_components opts
            then split_on_scc g else Inr g) = Inr g1"
    and g': "g' = g1 \<lparr> g_node := map (\<lambda>node.
                           node \<lparr> nd_band_id := (nd_band_id node)[nat (g_n_band g1) :=
                                    nd_band_id node ! nat (g_n_band g1) + nd_scc node] \<rparr>)
                         (g_node g1) \<rparr>"
    unfolding component_prepare_def by (auto split: sum.splits)
  have b: "inv_eq g1 \<and> g_band_start g \<le> g_band_start g1 \<and> length (g_node g1) = length (g_node g)
           \<and> g_scc g1 = g_scc g"
  proof (cases "schedule_fuse_min opts \<or> schedule_separate_components opts")
    case True
    with a have "split_on_scc g = Inr g1" by simp
    from split_on_scc_inv [OF this inv_eq_le [OF assms(2)]] show ?thesis by simp
  next
    case False
    with a assms(2) show ?thesis by simp
  qed
  have rows: "map node_rows (g_node g') = map node_rows (g_node g1)"
    unfolding g' by (simp add: comp_def node_rows_def)
  show "inv_eq g'" using b unfolding inv_eq_def uniform_rows_iff rows
    by (simp add: g')
  show "g_band_start g \<le> g_band_start g'" using b by (simp add: g')
  show "length (g_node g') = length (g_node g)" using b by (simp add: g')
  show "g_scc g' = g_scc g" using b by (simp add: g')
qed

lemma pad_schedule_uniform:
  assumes "\<forall>node \<in> set (g_node g). node_rows node \<le> g_n_total_row g"
  shows "uniform_rows (pad_schedule g)"
  using assms
  by (auto simp: uniform_rows_def list_all_iff pad_schedule_def pad_schedule_node_def Let_def
      node_rows_def)

subsection \<open>Subgraphs\<close>

lemma graph_edge_table_add_node [simp]: "g_node (graph_edge_table_add g t e) = g_node g"
  by (simp add: graph_edge_table_add_def Let_def)

lemma foldl_table_add_node:
  "g_node (foldl (\<lambda>g t. if c t then graph_edge_table_add g t e else g) d0 ts) = g_node d0"
  by (rule foldl_invariant [where P = "\<lambda>g. g_node g = g_node d0"]) simp_all

lemma copy_edge_node:
  assumes "copy_edge ops src epred data i dst = Inr dst'"
  shows "g_node dst' = g_node dst"
  using assms unfolding copy_edge_def Let_def
  by (auto simp: foldl_table_add_node split: if_splits option.splits prod.splits)

lemma sub_graph_nodes:
  assumes "sub_graph ops g n npred epred data = Inr split"
  shows "g_node split = copy_nodes g npred data"
    and "g_n_total_row split = g_n_total_row g" and "g_band_start split = g_band_start g"
proof -
  from assms obtain s0 s1 where
    c: "copy_edges ops s0 g epred data = Inr s1" and n0: "g_node s0 = copy_nodes g npred data"
    and sp: "split = s1 \<lparr> g_n_row := g_n_row g, g_max_row := g_max_row g,
                       g_n_total_row := g_n_total_row g, g_n_band := g_n_band g,
                       g_band_start := g_band_start g \<rparr>"
    unfolding sub_graph_def by (auto split: sum.splits)
  have "g_node s1 = g_node s0"
  proof (rule fold_err_invariant [where P = "\<lambda>t. g_node t = g_node s0", OF c [unfolded copy_edges_def]])
    show "g_node (s0 \<lparr> g_edge := [] \<rparr>) = g_node s0" by simp
  next
    fix x t t' assume "g_node t = g_node s0" and "copy_edge ops g epred data x t = Inr t'"
    then show "g_node t' = g_node s0" using copy_edge_node by metis
  qed
  then show "g_node split = copy_nodes g npred data" unfolding sp n0 by simp
  show "g_n_total_row split = g_n_total_row g" unfolding sp by simp
  show "g_band_start split = g_band_start g" unfolding sp by simp
qed

lemma copy_node_rows [simp]: "node_rows (copy_node node) = node_rows node"
  by (simp add: copy_node_def node_rows_def)

lemma sub_graph_inv:
  assumes "sub_graph ops g n npred epred data = Inr split" and "pre_sub npred data g"
  shows "inv_eq split"
    and "length (g_node split) = length (filter (\<lambda>node. node_pred_holds npred node data) (g_node g))"
proof -
  note n = sub_graph_nodes [OF assms(1)]
  show "inv_eq split" using assms(2)
    unfolding inv_eq_def uniform_rows_def n pre_sub_def copy_nodes_def
    by (auto simp: list_all_iff)
  show "length (g_node split) = length (filter (\<lambda>node. node_pred_holds npred node data) (g_node g))"
    unfolding n copy_nodes_def by simp
qed

lemma copy_schedule_nodes_rel:
  assumes "\<forall>node \<in> set src. node_rows node = t"
    and "k + length (filter (\<lambda>node. node_pred_holds npred node data) dst) \<le> length src"
  shows "list_all2 (sub_rel npred data t) dst (copy_schedule_nodes npred data dst src k)"
  using assms(2)
proof (induction dst arbitrary: k)
  case Nil
  then show ?case by simp
next
  case (Cons d dst)
  show ?case
  proof (cases "node_pred_holds npred d data")
    case True
    with Cons.prems have k: "k < length src"
      and r: "(k + 1) + length (filter (\<lambda>node. node_pred_holds npred node data) dst) \<le> length src"
      by simp_all
    from k assms(1) have "node_rows (src ! k) = t" by simp
    then have "sub_rel npred data t d
        (d \<lparr> nd_sched := nd_sched (src ! k), nd_band := nd_band (src ! k),
             nd_band_id := nd_band_id (src ! k), nd_coincident := nd_coincident (src ! k) \<rparr>)"
      using True by (simp add: sub_rel_def node_rows_def)
    with Cons.IH [OF r] True show ?thesis by simp
  next
    case False
    with Cons.prems have "k + length (filter (\<lambda>node. node_pred_holds npred node data) dst) \<le> length src"
      by simp
    from Cons.IH [OF this] False show ?thesis by (simp add: sub_rel_def)
  qed
qed

lemma compute_sub_schedule_body_ok:
  assumes ok: "run_ok run"
    and r: "compute_sub_schedule_body run ops n npred epred data wcc g = Inr g'"
    and p: "pre_sub npred data g"
  shows "post_sub npred data g g'"
proof -
  from r obtain split split1 where
    sg: "sub_graph ops g n npred epred data = Inr split"
    and rn: "(if wcc then run Call_compute_schedule_wcc split
                 else run Call_compute_schedule split) = Inr split1"
    and g': "g' = copy_schedule g split1 npred data"
    unfolding compute_sub_schedule_body_def by (auto split: sum.splits)
  note si = sub_graph_inv [OF sg p]
  note sn = sub_graph_nodes [OF sg]
  have ps: "rows_post split split1"
  proof (cases wcc)
    case True
    with rn have "run Call_compute_schedule_wcc split = Inr split1" by simp
    with ok si(1) have "call_post Call_compute_schedule_wcc split split1" unfolding run_ok_def by fastforce
    then show ?thesis by simp
  next
    case False
    with rn have "run Call_compute_schedule split = Inr split1" by simp
    with ok si(1) have "call_post Call_compute_schedule split split1" unfolding run_ok_def by fastforce
    then show ?thesis by simp
  qed
  from ps have u: "\<forall>node \<in> set (g_node split1). node_rows node = g_n_total_row split1"
    and b: "g_band_start split \<le> g_n_total_row split1"
    and l: "length (g_node split1) = length (g_node split)"
    by (simp_all add: rows_post_def uniform_rows_def list_all_iff)
  have "0 + length (filter (\<lambda>node. node_pred_holds npred node data) (g_node g)) \<le> length (g_node split1)"
    unfolding l si(2) by simp
  from copy_schedule_nodes_rel [OF u this]
  show ?thesis unfolding post_sub_def g' copy_schedule_def using b sn(3) by simp
qed

subsection \<open>The bodies of the driver\<close>

lemma run_okD: "run_ok run \<Longrightarrow> run call g = Inr g' \<Longrightarrow> call_pre call g \<Longrightarrow> call_post call g g'"
  unfolding run_ok_def by blast

lemma compute_schedule_body_ok:
  assumes ok: "run_ok run" and r: "compute_schedule_body run ops opts g = Inr g'" and p: "inv_eq g"
  shows "rows_post g g'"
proof -
  from r obtain g1 where d: "detect_ccs ops g (\<not> schedule_fuse_min opts) = Some g1"
    and c: "(if g_scc g1 > 1 then run Call_compute_component_schedule g1
             else run Call_compute_schedule_wcc g1) = Inr g'"
    unfolding compute_schedule_body_def detect_sccs_def detect_wccs_def
    by (auto split: option.splits if_splits)
  note f = detect_ccs_frame [OF d]
  note i1 = frame_inv_eq [OF f p]
  have "rows_post g1 g'"
  proof (cases "g_scc g1 > 1")
    case True
    with c have "run Call_compute_component_schedule g1 = Inr g'" by simp
    from run_okD [OF ok this] i1 True show ?thesis by simp
  next
    case False
    with c have "run Call_compute_schedule_wcc g1 = Inr g'" by simp
    from run_okD [OF ok this] i1 show ?thesis by simp
  qed
  with f show ?thesis by (rule frame_post)
qed

lemma compute_schedule_wcc_body_ok:
  assumes ok: "run_ok run" and r: "compute_schedule_wcc_body run ops opts g = Inr g'" and p: "inv_eq g"
  shows "rows_post g g'"
proof -
  from r obtain g1 where w: "wcc_prepare ops g = Some g1"
    and c: "(if need_feautrier_step ops opts g1 \<noteq> Some False
          then run Call_carry_dependences g1
          else
             run (Call_wcc_loop (has_any_coincidence (clear_local_edges g1))
                    (has_any_coincidence (clear_local_edges g1)) (schedule_outer_coincidence opts)
                    (need_condition_check (clear_local_edges g1))) (clear_local_edges g1)) = Inr g'"
    unfolding compute_schedule_wcc_body_def Let_def by (auto split: option.splits)
  note f = wcc_prepare_frame [OF w]
  note i1 = frame_inv_eq [OF f p]
  have "rows_post g1 g'"
  proof (cases "need_feautrier_step ops opts g1 \<noteq> Some False")
    case True
    with c have "run Call_carry_dependences g1 = Inr g'" by simp
    from run_okD [OF ok this] i1 show ?thesis by simp
  next
    case False
    with c have rr: "run (Call_wcc_loop (has_any_coincidence (clear_local_edges g1))
                    (has_any_coincidence (clear_local_edges g1)) (schedule_outer_coincidence opts)
                    (need_condition_check (clear_local_edges g1))) (clear_local_edges g1) = Inr g'"
      by simp
    note f2 = same_nodes_frame [OF clear_local_edges_same [of g1]]
    from run_okD [OF ok rr] frame_inv_le [OF f2 inv_eq_le [OF i1]]
    have "rows_post (clear_local_edges g1) g'" by simp
    with f2 show ?thesis by (rule frame_post)
  qed
  with f show ?thesis by (rule frame_post)
qed

lemma lp_infeasible_action_carry:
  "lp_infeasible_action uc fc mbd src ntr bs = Carry_dependences \<Longrightarrow> ntr = bs"
  unfolding lp_infeasible_action_def Let_def by (auto split: if_splits)

lemma wcc_add_row_inv:
  assumes "wcc_add_row ops g hc uc cc sol = Inr res" and "inv_le g"
  shows "inv_le (fst res)" and "g_band_start (fst res) = g_band_start g"
    and "length (g_node (fst res)) = length (g_node g)"
proof -
  from assms(1) obtain g1 where
    u: "update_schedule g (Some sol) True (if \<not> hc \<or> uc then 1 else 0) = Inr g1"
    and c: "(if \<not> cc then Inr (g1, uc)
          else
            (case has_violated_conditional_constraint ops g1 of
               None \<Rightarrow> Inl Failure
             | Some r \<Rightarrow>
                 if \<not> fst r then Inr (snd r, uc)
                 else Inr (reset_band (snd r), hc))) = Inr res"
    unfolding wcc_add_row_def Let_def by (auto split: sum.splits)
  note u1 = update_schedule_inv [OF u assms(2)]
  have "inv_le (fst res) \<and> g_band_start (fst res) = g_band_start g1
        \<and> length (g_node (fst res)) = length (g_node g1)"
  proof (cases cc)
    case False
    with c u1 show ?thesis by auto
  next
    case True
    with c obtain r where h: "has_violated_conditional_constraint ops g1 = Some r"
      and rr: "res = (if \<not> fst r then (snd r, uc) else (reset_band (snd r), hc))"
      by (auto split: option.splits if_splits)
    note f = same_nodes_frame [OF has_violated_conditional_constraint_same [OF h]]
    note i = frame_inv_le [OF f u1(1)]
    from f have b: "g_band_start (snd r) = g_band_start g1" by (simp add: rows_frame_def)
    note l = frame_length [OF f]
    show ?thesis
    proof (cases "fst r")
      case False
      with rr i b l show ?thesis by simp
    next
      case True
      with rr have "fst res = reset_band (snd r)" by simp
      with reset_band_inv [OF i] b l show ?thesis by (simp add: inv_eq_le)
    qed
  qed
  with u1 show "inv_le (fst res)" and "g_band_start (fst res) = g_band_start g"
    and "length (g_node (fst res)) = length (g_node g)" by simp_all
qed

lemma wcc_loop_body_ok:
  assumes ok: "run_ok run" and r: "wcc_loop_body run ops opts hc uc fc cc g = Inr g'" and p: "inv_le g"
  shows "rows_post g g'"
proof (cases "g_n_row g < g_maxvar g")
  case False
  with r have s: "sort_statements ops (if g_n_total_row g > g_band_start g then next_band g else g) = Inr g'"
    unfolding wcc_loop_body_def by simp
  let ?g = "if g_n_total_row g > g_band_start g then next_band g else g"
  have i: "inv_le ?g" using p next_band_inv [OF p] by (simp add: inv_eq_le)
  have b: "g_band_start g \<le> g_band_start ?g" and l: "length (g_node ?g) = length (g_node g)"
    using p by (simp_all add: next_band_def inv_le_def)
  from sort_statements_post(1) [OF s i] b l show ?thesis by (rule post_mono)
next
  case True
  with r obtain g1 sol where su: "setup_lp ops opts uc (g \<lparr> g_src_scc := - 1, g_dst_scc := - 1 \<rparr>) = Some g1"
    and so: "snd (solve_lp ops g1) = Some sol"
    and c: "(if sol = [] then
                    (case lp_infeasible_action uc fc
                            (schedule_maximize_band_depth opts) (g_src_scc (fst (solve_lp ops g1)))
                            (g_n_total_row (fst (solve_lp ops g1))) (g_band_start (fst (solve_lp ops g1))) of
                       Retry_without_coincidence \<Rightarrow>
                         run (Call_wcc_loop hc False fc cc) (fst (solve_lp ops g1))
                     | Compute_next_band \<Rightarrow> run Call_compute_next_band (fst (solve_lp ops g1))
                     | Compute_split_schedule \<Rightarrow> run Call_compute_split_schedule (fst (solve_lp ops g1))
                     | Carry_dependences \<Rightarrow> run Call_carry_dependences (fst (solve_lp ops g1)))
                  else
                    (case wcc_add_row ops (fst (solve_lp ops g1)) hc uc cc sol of
                       Inl e \<Rightarrow> Inl e
                     | Inr res \<Rightarrow> run (Call_wcc_loop hc (snd res) fc cc) (fst res))) = Inr g'"
    unfolding wcc_loop_body_def Let_def by (auto split: option.splits)
  define g2 where "g2 = fst (solve_lp ops g1)"
  have f0: "rows_frame g (g \<lparr> g_src_scc := - 1, g_dst_scc := - 1 \<rparr>)" by (simp add: rows_frame_def)
  have f: "rows_frame g g2" unfolding g2_def
    using frame_trans [OF f0 frame_trans [OF setup_lp_frame [OF su] same_nodes_frame [OF solve_lp_same]]] .
  note i2 = frame_inv_le [OF f p]
  have "rows_post g2 g'"
  proof (cases "sol = []")
    case True
    note c' = c [folded g2_def, unfolded True, simplified]
    show ?thesis
    proof (cases "lp_infeasible_action uc fc (schedule_maximize_band_depth opts) (g_src_scc g2)
                    (g_n_total_row g2) (g_band_start g2)")
      case Retry_without_coincidence
      with c' have "run (Call_wcc_loop hc False fc cc) g2 = Inr g'" by simp
      from run_okD [OF ok this] i2 show ?thesis by simp
    next
      case Compute_next_band
      with c' have "run Call_compute_next_band g2 = Inr g'" by simp
      from run_okD [OF ok this] i2 show ?thesis by simp
    next
      case Compute_split_schedule
      with c' have "run Call_compute_split_schedule g2 = Inr g'" by simp
      from run_okD [OF ok this] i2 show ?thesis by simp
    next
      case Carry_dependences
      with c' have rr: "run Call_carry_dependences g2 = Inr g'" by simp
      from lp_infeasible_action_carry [OF Carry_dependences] i2 have "inv_eq g2"
        by (simp add: inv_eq_def inv_le_def)
      with run_okD [OF ok rr] show ?thesis by simp
    qed
  next
    case False
    with c obtain res where w: "wcc_add_row ops g2 hc uc cc sol = Inr res"
      and rr: "run (Call_wcc_loop hc (snd res) fc cc) (fst res) = Inr g'"
      unfolding g2_def by (auto split: sum.splits)
    note wi = wcc_add_row_inv [OF w i2]
    from run_okD [OF ok rr] wi(1) have "rows_post (fst res) g'" by simp
    then show ?thesis using wi(2,3) by (simp add: rows_post_def)
  qed
  with f show ?thesis by (rule frame_post)
qed

lemma compute_next_band_body_ok:
  assumes ok: "run_ok run" and r: "compute_next_band_body run ops g = Inr g'" and p: "inv_le g"
  shows "rows_post g g'"
proof -
  from r obtain g1 where u: "update_edges ops g = Some g1"
    and rr: "run Call_compute_schedule (next_band g1) = Inr g'"
    unfolding compute_next_band_body_def by (auto split: option.splits)
  note f = same_nodes_frame [OF update_edges_same [OF u]]
  note i1 = frame_inv_le [OF f p]
  from run_okD [OF ok rr] next_band_inv [OF i1] have "rows_post (next_band g1) g'" by simp
  then have "rows_post g1 g'" using i1 by (simp add: rows_post_def next_band_def inv_le_def)
  with f show ?thesis by (rule frame_post)
qed

lemma carry_solution_frame:
  assumes "inv_eq g"
  shows "carry_solution ops opts g = Carry_components g1 \<Longrightarrow> rows_frame g g1 \<and> 1 < g_scc g1"
    and "carry_solution ops opts g = Carry_row g1 sol \<Longrightarrow> rows_frame g g1"
proof -
  assume a: "carry_solution ops opts g = Carry_components g1"
  then obtain g0 where s: "setup_carry_lp ops opts g = Some g0"
    unfolding carry_solution_def Let_def by (auto split: option.splits)
  with a have "g1 = g0 \<and> 1 < g_scc g0"
    unfolding carry_solution_def Let_def by (auto split: option.splits if_splits)
  with setup_carry_lp_frame [OF s] show "rows_frame g g1 \<and> 1 < g_scc g1" by simp
next
  assume a: "carry_solution ops opts g = Carry_row g1 sol"
  then obtain g0 where s: "setup_carry_lp ops opts g = Some g0"
    unfolding carry_solution_def Let_def by (auto split: option.splits)
  with a have "g1 = g0"
    unfolding carry_solution_def Let_def by (auto split: option.splits if_splits)
  with setup_carry_lp_frame [OF s] show "rows_frame g g1" by simp
qed

lemma carry_dependences_body_ok:
  assumes ok: "run_ok run" and r: "carry_dependences_body run ops opts g = Inr g'" and p: "inv_eq g"
  shows "rows_post g g'"
proof (cases "carry_solution ops opts g")
  case (Carry_fail e)
  with r show ?thesis unfolding carry_dependences_body_def by simp
next
  case (Carry_components g1)
  with r have rr: "run Call_compute_component_schedule g1 = Inr g'"
    unfolding carry_dependences_body_def by simp
  from carry_solution_frame(1) [OF p Carry_components] have f: "rows_frame g g1" and s: "1 < g_scc g1"
    by blast+
  from run_okD [OF ok rr] frame_inv_eq [OF f p] s have "rows_post g1 g'" by simp
  with f show ?thesis by (rule frame_post)
next
  case (Carry_row g1 sol)
  with r obtain g2 g3 where u: "update_schedule g1 sol False 0 = Inr g2"
    and ss: "split_scaled opts g2 = Inr g3"
    and rr: "run Call_compute_next_band g3 = Inr g'"
    unfolding carry_dependences_body_def by (auto split: sum.splits)
  from carry_solution_frame(2) [OF p Carry_row] have f: "rows_frame g g1" .
  note i1 = frame_inv_le [OF f inv_eq_le [OF p]]
  note u1 = update_schedule_inv [OF u i1]
  note s1 = split_scaled_inv [OF ss u1(1)]
  from run_okD [OF ok rr] s1(1) have "rows_post g3 g'" by simp
  then have "rows_post g1 g'" using u1(2,3) s1(2,3) by (simp add: rows_post_def)
  with f show ?thesis by (rule frame_post)
qed

lemma pad_schedule_post:
  assumes "list_all (\<lambda>node. node_rows node \<le> n) (g_node g)" and "b \<le> n"
    and "length (g_node g) = l"
  shows "uniform_rows (pad_schedule (g \<lparr> g_n_total_row := n, g_n_band := nb \<rparr>))"
    and "b \<le> g_n_total_row (pad_schedule (g \<lparr> g_n_total_row := n, g_n_band := nb \<rparr>))"
    and "length (g_node (pad_schedule (g \<lparr> g_n_total_row := n, g_n_band := nb \<rparr>))) = l"
proof -
  show "uniform_rows (pad_schedule (g \<lparr> g_n_total_row := n, g_n_band := nb \<rparr>))"
    using assms(1) by (intro pad_schedule_uniform) (simp add: list_all_iff)
  show "b \<le> g_n_total_row (pad_schedule (g \<lparr> g_n_total_row := n, g_n_band := nb \<rparr>))"
    using assms(2) by (simp add: pad_schedule_def)
  show "length (g_node (pad_schedule (g \<lparr> g_n_total_row := n, g_n_band := nb \<rparr>))) = l"
    using assms(3) by (simp add: pad_schedule_def)
qed

lemma compute_split_schedule_body_ok:
  assumes ok: "run_ok run" and r: "compute_split_schedule_body run g = Inr g'" and p: "inv_le g"
  shows "rows_post g g'"
proof -
  from r obtain res g2 g3 where sp: "split_prepare g = Inr res"
    and r1: "run (Call_compute_sub_schedule (fst (snd res)) Node_scc_at_most Edge_dst_scc_at_most
                       (g_src_scc (fst res)) False) (fst res) = Inr g2"
    and r2: "run (Call_compute_sub_schedule (length (g_node g2) - fst (snd res)) Node_scc_at_least
                            Edge_src_scc_at_least (g_src_scc g2 + 1) False)
                       (g2 \<lparr> g_n_total_row := g_n_total_row (fst res), g_n_band := g_n_band (fst res) \<rparr>)
               = Inr g3"
    and g': "g' = pad_schedule
                   (g3 \<lparr> g_n_total_row := (if g_n_total_row g2 > g_n_total_row g3
                                                then g_n_total_row g2 else g_n_total_row g3),
                         g_n_band := (if g_n_band g2 > g_n_band g3
                                          then g_n_band g2 else g_n_band g3) \<rparr>)"
    unfolding compute_split_schedule_body_def Let_def by (auto split: sum.splits)
  define g1 where "g1 = fst res"
  define src where "src = g_src_scc g1"
  define orig where "orig = g_n_total_row g1"
  note si = split_prepare_inv [OF sp p, folded g1_def]
  from si(1) have u1: "\<forall>node \<in> set (g_node g1). node_rows node = orig"
    and b1: "g_band_start g1 = orig" and o: "0 \<le> orig"
    by (simp_all add: inv_eq_def uniform_rows_def list_all_iff orig_def)
  have "pre_sub Node_scc_at_most src g1"
    using u1 b1 o by (simp add: pre_sub_def list_all_iff orig_def)
  with run_okD [OF ok r1 [folded g1_def src_def]]
  have ps1: "post_sub Node_scc_at_most src g1 g2" by simp
  define t1 where "t1 = g_n_total_row g2"
  from ps1 have rel1: "list_all2 (sub_rel Node_scc_at_most src t1) (g_node g1) (g_node g2)"
    and t1: "orig \<le> t1" and b2: "g_band_start g2 = orig" and src2: "g_src_scc g2 = src"
    by (simp_all add: post_sub_def t1_def b1 src_def)
  let ?g2 = "g2 \<lparr> g_n_total_row := orig, g_n_band := g_n_band g1 \<rparr>"
  have n2: "\<And>i. i < length (g_node g1) \<Longrightarrow>
       nd_scc (g_node g2 ! i) = nd_scc (g_node g1 ! i) \<and>
       (if nd_scc (g_node g1 ! i) \<le> src then node_rows (g_node g2 ! i) = t1
        else node_rows (g_node g2 ! i) = orig)"
  proof -
    fix i assume i: "i < length (g_node g1)"
    with rel1 have "sub_rel Node_scc_at_most src t1 (g_node g1 ! i) (g_node g2 ! i)"
      by (simp add: list_all2_conv_all_nth)
    moreover from i u1 have "node_rows (g_node g1 ! i) = orig" by simp
    ultimately show "nd_scc (g_node g2 ! i) = nd_scc (g_node g1 ! i) \<and>
       (if nd_scc (g_node g1 ! i) \<le> src then node_rows (g_node g2 ! i) = t1
        else node_rows (g_node g2 ! i) = orig)"
      by (simp add: sub_rel_def)
  qed
  from rel1 have l2: "length (g_node g2) = length (g_node g1)" by (simp add: list_all2_lengthD)
  have "pre_sub Node_scc_at_least (src + 1) ?g2"
    unfolding pre_sub_def list_all_length using n2 b2 o l2 by (auto split: if_splits)
  with run_okD [OF ok r2 [folded g1_def orig_def, unfolded src2]]
  have ps2: "post_sub Node_scc_at_least (src + 1) ?g2 g3" by simp
  define t2 where "t2 = g_n_total_row g3"
  from ps2 have rel2: "list_all2 (sub_rel Node_scc_at_least (src + 1) t2) (g_node g2) (g_node g3)"
    and t2: "orig \<le> t2"
    by (simp_all add: post_sub_def t2_def b2)
  from rel2 have l3: "length (g_node g3) = length (g_node g2)" by (simp add: list_all2_lengthD)
  define n where "n = (if t1 > t2 then t1 else t2)"
  have n3: "list_all (\<lambda>node. node_rows node \<le> n) (g_node g3)"
    unfolding list_all_length
  proof (intro allI impI)
    fix i assume i: "i < length (g_node g3)"
    with rel2 l3 have "sub_rel Node_scc_at_least (src + 1) t2 (g_node g2 ! i) (g_node g3 ! i)"
      by (simp add: list_all2_conv_all_nth)
    moreover from i l3 l2 n2 [of i] have
       "nd_scc (g_node g2 ! i) = nd_scc (g_node g1 ! i)"
       "nd_scc (g_node g1 ! i) \<le> src \<Longrightarrow> node_rows (g_node g2 ! i) = t1"
       "\<not> nd_scc (g_node g1 ! i) \<le> src \<Longrightarrow> node_rows (g_node g2 ! i) = orig"
      by simp_all
    ultimately show "node_rows (g_node g3 ! i) \<le> n"
      unfolding n_def sub_rel_def by (cases "nd_scc (g_node g1 ! i) \<le> src") auto
  qed
  have bn: "g_band_start g \<le> n" using si(2) b1 t1 by (simp add: n_def)
  have ln: "length (g_node g3) = length (g_node g)" using l3 l2 si(3) by simp
  from pad_schedule_post [OF n3 bn ln]
  show ?thesis unfolding rows_post_def g' n_def t1_def t2_def by simp
qed

lemma compute_component_schedule_body_ok:
  assumes ok: "run_ok run" and r: "compute_component_schedule_body run opts g = Inr g'"
    and p: "inv_eq g" and s: "1 \<le> g_scc g"
  shows "rows_post g g'"
proof -
  from r obtain g1 where c: "component_prepare opts g = Inr g1"
    and rr: "run (Call_component_loop 0 0 0 (g_n_total_row g1) (g_n_band g1)) g1 = Inr g'"
    unfolding compute_component_schedule_body_def by (auto split: sum.splits)
  note ci = component_prepare_inv [OF c p]
  have "pre_loop 0 0 (g_n_total_row g1) g1"
    using ci(1,4) s by (simp add: pre_loop_def inv_eq_def uniform_rows_def list_all_iff)
  with run_okD [OF ok rr] have "rows_post g1 g'" by simp
  then show ?thesis using ci(2,3) by (simp add: rows_post_def)
qed

lemma component_loop_body_ok:
  assumes ok: "run_ok run" and r: "component_loop_body run wcc n nb orig ob g = Inr g'"
    and p: "pre_loop wcc n orig g"
  shows "rows_post g g'"
proof (cases "wcc < g_scc g")
  case False
  with r have g': "g' = pad_schedule (g \<lparr> g_n_total_row := n, g_n_band := nb \<rparr>)"
    unfolding component_loop_body_def by simp
  from p False have on: "orig \<le> n" and b: "g_band_start g = orig" by (simp_all add: pre_loop_def)
  from p on have "list_all (\<lambda>node. node_rows node \<le> n) (g_node g)"
    by (auto simp: pre_loop_def list_all_iff)
  from pad_schedule_post [OF this, of "g_band_start g" "length (g_node g)" nb] on b
  show ?thesis unfolding rows_post_def g' by simp
next
  case True
  with r obtain g1 where
    r1: "run (Call_compute_sub_schedule
                     (length (filter (\<lambda>node. nd_scc node = wcc) (g_node g)))
                     Node_scc_exactly Edge_scc_exactly wcc True) g = Inr g1"
    and r2: "run (Call_component_loop (wcc + 1)
                    (if g_n_total_row g1 > n then g_n_total_row g1 else n)
                    (if g_n_band g1 > nb then g_n_band g1 else nb) orig ob)
               (g1 \<lparr> g_n_total_row := orig, g_n_band := ob \<rparr>) = Inr g'"
    unfolding component_loop_body_def by (auto split: sum.splits)
  from p have o: "0 \<le> orig" and b: "g_band_start g = orig" and nt: "g_n_total_row g = orig"
    and nodes: "\<forall>node \<in> set (g_node g). node_rows node = orig \<or>
                        (nd_scc node < wcc \<and> orig \<le> node_rows node \<and> node_rows node \<le> n)"
    by (simp_all add: pre_loop_def list_all_iff)
  have "pre_sub Node_scc_exactly wcc g"
    using o b nt nodes by (auto simp: pre_sub_def list_all_iff)
  with run_okD [OF ok r1] have ps: "post_sub Node_scc_exactly wcc g g1" by simp
  define t where "t = g_n_total_row g1"
  define n' where "n' = (if t > n then t else n)"
  from ps have rel: "list_all2 (sub_rel Node_scc_exactly wcc t) (g_node g) (g_node g1)"
    and ot: "orig \<le> t" and b1: "g_band_start g1 = orig" and s1: "g_scc g1 = g_scc g"
    by (simp_all add: post_sub_def t_def b)
  from rel have l1: "length (g_node g1) = length (g_node g)" by (simp add: list_all2_lengthD)
  have "list_all (\<lambda>node. node_rows node = orig \<or>
                        (nd_scc node < wcc + 1 \<and> orig \<le> node_rows node \<and> node_rows node \<le> n'))
          (g_node g1)"
    unfolding list_all_length
  proof (intro allI impI)
    fix i assume i: "i < length (g_node g1)"
    with rel l1 have sr: "sub_rel Node_scc_exactly wcc t (g_node g ! i) (g_node g1 ! i)"
      by (simp add: list_all2_conv_all_nth)
    from i l1 nodes have old: "node_rows (g_node g ! i) = orig \<or>
        (nd_scc (g_node g ! i) < wcc \<and> orig \<le> node_rows (g_node g ! i) \<and> node_rows (g_node g ! i) \<le> n)"
      by simp
    show "node_rows (g_node g1 ! i) = orig \<or>
          (nd_scc (g_node g1 ! i) < wcc + 1 \<and> orig \<le> node_rows (g_node g1 ! i)
           \<and> node_rows (g_node g1 ! i) \<le> n')"
      using sr old ot unfolding sub_rel_def n'_def
      by (cases "nd_scc (g_node g ! i) = wcc") auto
  qed
  then have "pre_loop (wcc + 1) n' orig (g1 \<lparr> g_n_total_row := orig, g_n_band := ob \<rparr>)"
    using o b1 ot by (simp add: pre_loop_def n'_def)
  with run_okD [OF ok r2 [folded t_def, folded n'_def]]
  have "rows_post (g1 \<lparr> g_n_total_row := orig, g_n_band := ob \<rparr>) g'" by simp
  then show ?thesis using b b1 l1 by (simp add: rows_post_def)
qed

lemma sched_run_ok: "run_ok (sched_run ops opts k)"
proof (induction k)
  case 0
  show ?case by (simp add: run_ok_def)
next
  case (Suc k)
  show ?case unfolding run_ok_def
  proof (intro allI impI)
    fix call and g g' :: "'a isl_sched_graph"
    assume r: "sched_run ops opts (Suc k) call g = Inr g'" and p: "call_pre call g"
    show "call_post call g g'"
    proof (cases call)
      case Call_compute_schedule
      with r p compute_schedule_body_ok [OF Suc] show ?thesis by simp
    next
      case Call_compute_schedule_wcc
      with r p compute_schedule_wcc_body_ok [OF Suc] show ?thesis by simp
    next
      case (Call_wcc_loop hc uc fc cc)
      with r p wcc_loop_body_ok [OF Suc] show ?thesis by simp
    next
      case Call_compute_next_band
      with r p compute_next_band_body_ok [OF Suc] show ?thesis by simp
    next
      case Call_compute_split_schedule
      with r p compute_split_schedule_body_ok [OF Suc] show ?thesis by simp
    next
      case (Call_compute_sub_schedule n npred epred data wcc)
      with r p compute_sub_schedule_body_ok [OF Suc] show ?thesis by simp
    next
      case Call_carry_dependences
      with r p carry_dependences_body_ok [OF Suc] show ?thesis by simp
    next
      case Call_compute_component_schedule
      with r p compute_component_schedule_body_ok [OF Suc] show ?thesis by simp
    next
      case (Call_component_loop wcc n nb orig ob)
      with r p component_loop_body_ok [OF Suc] show ?thesis by simp
    qed
  qed
qed

lemma sched_example_run:
  "isl_schedule_constraints_compute_schedule sched_example_ops default_options 12
     sched_example_domain [] [] = Inr sched_example"
  by code_simp

lemma length_foldl_band [simp]:
  "length (foldl (\<lambda>band j. band[j := v]) band js) = length band"
  by (induction js arbitrary: band) simp_all

lemma foldl_band_nth:
  assumes "a \<le> r" and "r < b" and "r < length band"
  shows "foldl (\<lambda>band j. band[j := v]) band [a ..< b] ! r = v"
  using assms(2)
proof (induction b)
  case 0
  then show ?case by simp
next
  case (Suc b)
  from Suc.prems assms(1) have ab: "a \<le> b" by simp
  show ?case
  proof (cases "r = b")
    case True
    with ab assms(3) show ?thesis by simp
  next
    case False
    with Suc have "foldl (\<lambda>band j. band[j := v]) band [a ..< b] ! r = v" by simp
    with False ab show ?thesis by simp
  qed
qed

lemma pad_schedule_node_rows:
  assumes "node_rows node \<le> n"
  shows "node_rows (pad_schedule_node n node) = n"
    and "\<forall>r. nat (node_rows node) \<le> r \<and> r < nat n \<longrightarrow>
           m_rows (nd_sched (pad_schedule_node n node)) ! r = replicate (m_n_col (nd_sched node)) 0 \<and>
           (r < length (nd_band node) \<longrightarrow> nd_band (pad_schedule_node n node) ! r = - 1)"
proof -
  show "node_rows (pad_schedule_node n node) = n"
    using assms by (simp add: pad_schedule_node_def Let_def node_rows_def)
  show "\<forall>r. nat (node_rows node) \<le> r \<and> r < nat n \<longrightarrow>
           m_rows (nd_sched (pad_schedule_node n node)) ! r = replicate (m_n_col (nd_sched node)) 0 \<and>
           (r < length (nd_band node) \<longrightarrow> nd_band (pad_schedule_node n node) ! r = - 1)"
  proof (intro allI impI, elim conjE)
    fix r assume a: "nat (node_rows node) \<le> r" and b: "r < nat n"
    have l: "nat (node_rows node) = length (m_rows (nd_sched node))"
      by (simp add: node_rows_def isl_mat_rows_def)
    have "m_rows (nd_sched (pad_schedule_node n node)) ! r = replicate (m_n_col (nd_sched node)) 0"
      using a b unfolding l
      by (simp add: pad_schedule_node_def Let_def isl_mat_add_zero_rows_def isl_mat_rows_def
          nth_append nat_diff_distrib)
    moreover have "r < length (nd_band node) \<longrightarrow> nd_band (pad_schedule_node n node) ! r = - 1"
      using a b foldl_band_nth [of "nat (node_rows node)" r "nat n" "nd_band node" "- 1"]
      by (simp add: pad_schedule_node_def Let_def node_rows_def)
    ultimately show "m_rows (nd_sched (pad_schedule_node n node)) ! r = replicate (m_n_col (nd_sched node)) 0 \<and>
           (r < length (nd_band node) \<longrightarrow> nd_band (pad_schedule_node n node) ! r = - 1)" ..
  qed
qed

lemma initial_graph_inv: "inv_eq (initial_graph opts domain edges table)"
  by (simp add: initial_graph_def inv_eq_def uniform_rows_def list_all_iff extract_node_def
      Let_def node_rows_def isl_mat_rows_def isl_mat_alloc_def)

lemma extract_schedule_node_sched:
  "sn_sched (extract_schedule_node graph node) = node_extract_schedule_multi_aff node"
  by (simp add: extract_schedule_node_def Let_def)

lemma extract_schedule_uniform:
  assumes "uniform_rows graph"
  shows "\<forall>node \<in> set (s_node (extract_schedule graph)).
           int (length (sn_sched node)) = s_n_total_row (extract_schedule graph)"
proof
  fix node assume "node \<in> set (s_node (extract_schedule graph))"
  then obtain nd where nd: "nd \<in> set (g_node graph)" and n: "node = extract_schedule_node graph nd"
    by (auto simp: extract_schedule_def)
  from assms nd have "isl_mat_rows (nd_sched nd) = g_n_total_row graph"
    by (simp add: uniform_rows_def list_all_iff node_rows_def)
  then show "int (length (sn_sched node)) = s_n_total_row (extract_schedule graph)"
    unfolding n extract_schedule_node_sched
    by (simp add: node_extract_schedule_multi_aff_def extract_schedule_def isl_mat_rows_def)
qed

text \<open>
  Claim C10: whenever \<open>isl_schedule_constraints_compute_schedule\<close> succeeds, the schedule of
  every node of the returned schedule has \<open>n_total_row\<close> rows, so all statements are mapped to
  a schedule space of the same dimension, and there is a node for every set of the domain.
  The schedule is extracted from a graph in which the matrix of every node has
  \<open>graph->n_total_row\<close> rows, the number of rows that \<open>pad_schedule\<close> gives to a node.
\<close>

theorem C10_uniform_schedule_dimension:
  fixes ops :: "'o sched_ops"
  assumes "isl_schedule_constraints_compute_schedule ops opts fuel domain edges table = Inr sched"
  shows "(\<forall>node \<in> set (s_node sched). int (length (sn_sched node)) = s_n_total_row sched) \<and>
         length (s_node sched) = length domain \<and>
         (\<exists>graph :: 'o isl_sched_graph. uniform_rows graph \<and> sched = extract_schedule graph \<and>
            (\<forall>node \<in> set (g_node graph).
               node_rows (pad_schedule_node (g_n_total_row graph) node) = g_n_total_row graph))"
proof -
  have "\<exists>graph :: 'o isl_sched_graph. uniform_rows graph \<and> sched = extract_schedule graph \<and>
          length (g_node graph) = length domain"
  proof (cases "domain = []")
    case True
    with assms have "sched = extract_schedule (initial_graph opts [] ([] :: 'o isl_sched_edge list) [])"
      by (simp add: isl_schedule_constraints_compute_schedule_def)
    moreover have "uniform_rows (initial_graph opts [] ([] :: 'o isl_sched_edge list) [])"
      using initial_graph_inv [unfolded inv_eq_def] by blast
    moreover have "length (g_node (initial_graph opts [] ([] :: 'o isl_sched_edge list) [])) = length domain"
      using True by (simp add: initial_graph_def)
    ultimately show ?thesis by blast
  next
    case False
    with assms obtain graph where
      c: "compute_schedule ops opts fuel (initial_graph opts domain edges table) = Inr graph"
      and s: "sched = extract_schedule graph"
      by (auto simp: isl_schedule_constraints_compute_schedule_def split: sum.splits)
    have i: "inv_eq (initial_graph opts domain edges table)" by (rule initial_graph_inv)
    from run_okD [OF sched_run_ok c [unfolded compute_schedule_def]] i
    have "rows_post (initial_graph opts domain edges table) graph" by simp
    then have "uniform_rows graph" and "length (g_node graph) = length domain"
      by (simp_all add: rows_post_def initial_graph_def)
    with s show ?thesis by blast
  qed
  then obtain graph :: "'o isl_sched_graph" where u: "uniform_rows graph"
    and s: "sched = extract_schedule graph"
    and l: "length (g_node graph) = length domain" by blast
  have p: "\<forall>node \<in> set (g_node graph).
               node_rows (pad_schedule_node (g_n_total_row graph) node) = g_n_total_row graph"
    using u pad_schedule_node_rows(1) by (simp add: uniform_rows_def list_all_iff)
  from extract_schedule_uniform [OF u] l u p show ?thesis
    unfolding s by (auto simp: extract_schedule_def)
qed

theorem C10_uniform_schedule_dimension_witness:
  "isl_schedule_constraints_compute_schedule sched_example_ops default_options 12
     sched_example_domain [] [] = Inr sched_example \<and>
   map (\<lambda>node. int (length (sn_sched node))) (s_node sched_example)
     = [s_n_total_row sched_example, s_n_total_row sched_example] \<and>
   s_n_total_row sched_example = 2 \<and>
   length (s_node sched_example) = 2"
proof -
  from C10_uniform_schedule_dimension [OF sched_example_run]
  have u: "\<forall>node \<in> set (s_node sched_example). int (length (sn_sched node)) = s_n_total_row sched_example"
    and l: "length (s_node sched_example) = length sched_example_domain"
    by blast+
  have l2: "length (s_node sched_example) = 2" using l by (simp add: sched_example_domain_def)
  then obtain a b where ab: "s_node sched_example = [a, b]"
    by (metis (no_types, opaque_lifting) One_nat_def Suc_1 length_0_conv length_Suc_conv)
  have "s_n_total_row sched_example = 2" by (simp add: sched_example_def)
  then show ?thesis using u l2 sched_example_run unfolding ab by simp
qed

section \<open>Scheduler: reaction to an infeasible LP\<close>

lemma wcc_loop_body_infeasible:
  assumes n: "g_n_row graph < g_maxvar graph"
    and su: "setup_lp ops opts use_coincidence (graph \<lparr> g_src_scc := - 1, g_dst_scc := - 1 \<rparr>) = Some graph1"
    and so: "snd (solve_lp ops graph1) = Some []"
  shows "wcc_loop_body run ops opts has_coincidence use_coincidence force_coincidence check_conditional graph =
     (if use_coincidence \<and> (\<not> force_coincidence \<or> g_n_total_row graph \<noteq> g_band_start graph)
      then run (Call_wcc_loop has_coincidence False force_coincidence check_conditional) (fst (solve_lp ops graph1))
      else if \<not> schedule_maximize_band_depth opts \<and> g_n_total_row graph \<noteq> g_band_start graph
      then run Call_compute_next_band (fst (solve_lp ops graph1))
      else if g_src_scc (fst (solve_lp ops graph1)) \<ge> 0
      then run Call_compute_split_schedule (fst (solve_lp ops graph1))
      else if g_n_total_row graph \<noteq> g_band_start graph
      then run Call_compute_next_band (fst (solve_lp ops graph1))
      else run Call_carry_dependences (fst (solve_lp ops graph1)))"
    and "rows_frame graph (fst (solve_lp ops graph1))"
proof -
  have f0: "rows_frame graph (graph \<lparr> g_src_scc := - 1, g_dst_scc := - 1 \<rparr>)"
    by (simp add: rows_frame_def)
  have f1: "rows_frame (graph \<lparr> g_src_scc := - 1, g_dst_scc := - 1 \<rparr>) graph1"
    by (rule setup_lp_frame [OF su])
  have f2: "rows_frame graph1 (fst (solve_lp ops graph1))"
    by (rule same_nodes_frame [OF solve_lp_same])
  show fr: "rows_frame graph (fst (solve_lp ops graph1))"
    using f0 f1 f2 by (blast intro: frame_trans)
  then have e: "g_n_total_row (fst (solve_lp ops graph1)) = g_n_total_row graph"
    "g_band_start (fst (solve_lp ops graph1)) = g_band_start graph"
    by (simp_all add: rows_frame_def)
  show "wcc_loop_body run ops opts has_coincidence use_coincidence force_coincidence check_conditional graph =
     (if use_coincidence \<and> (\<not> force_coincidence \<or> g_n_total_row graph \<noteq> g_band_start graph)
      then run (Call_wcc_loop has_coincidence False force_coincidence check_conditional) (fst (solve_lp ops graph1))
      else if \<not> schedule_maximize_band_depth opts \<and> g_n_total_row graph \<noteq> g_band_start graph
      then run Call_compute_next_band (fst (solve_lp ops graph1))
      else if g_src_scc (fst (solve_lp ops graph1)) \<ge> 0
      then run Call_compute_split_schedule (fst (solve_lp ops graph1))
      else if g_n_total_row graph \<noteq> g_band_start graph
      then run Call_compute_next_band (fst (solve_lp ops graph1))
      else run Call_carry_dependences (fst (solve_lp ops graph1)))"
    unfolding wcc_loop_body_def Let_def lp_infeasible_action_def using n su so e by simp
qed

lemma coincidence_example_setup:
  "setup_lp coincidence_example_ops default_options True
     (coincidence_example_band \<lparr> g_src_scc := - 1, g_dst_scc := - 1 \<rparr>) = Some coincidence_example_lp_graph"
  by code_simp

lemma coincidence_example_solve:
  "solve_lp coincidence_example_ops coincidence_example_lp_graph = (coincidence_example_lp_graph, Some [])"
  by code_simp

text \<open>
  Claim C3, as stated: when the LP of the band is infeasible, \<open>compute_schedule_wcc\<close> drops
  the coincidence requirement and retries the same band if and only if coincidence
  constraints were in use, outer coincidence is not forced and the current band is
  non-empty. This fails on the code. In the example the loop is entered with coincidence
  constraints in use, outer coincidence not forced and an empty band
  (\<open>n_total_row = band_start = 0\<close>); the LP with the coincidence constraints is infeasible.
  The condition of the claim is false, so the claim has the code go on to carry the
  dependences, which ends in an error here. The code retries instead: the result of the
  loop is that of the loop entered again on the same band with \<open>use_coincidence\<close> cleared,
  a schedule with the row \<open>x\<close>, not marked coincident.
\<close>

theorem C3_empty_band_retry_counterexample:
  "wcc_prepare coincidence_example_ops coincidence_example_graph = Some coincidence_example_band \<and>
   need_feautrier_step coincidence_example_ops default_options coincidence_example_band = Some False \<and>
   clear_local_edges coincidence_example_band = coincidence_example_band \<and>
   has_any_coincidence coincidence_example_band \<and>
   \<not> need_condition_check coincidence_example_band \<and>
   compute_schedule_wcc coincidence_example_ops default_options 4 coincidence_example_graph
     = compute_schedule_wcc_loop coincidence_example_ops default_options 3 True True False False
         coincidence_example_band \<and>
   g_n_row coincidence_example_band < g_maxvar coincidence_example_band \<and>
   setup_lp coincidence_example_ops default_options True
     (coincidence_example_band \<lparr> g_src_scc := - 1, g_dst_scc := - 1 \<rparr>) = Some coincidence_example_lp_graph \<and>
   solve_lp coincidence_example_ops coincidence_example_lp_graph = (coincidence_example_lp_graph, Some []) \<and>
   \<not> (True \<and> \<not> schedule_outer_coincidence default_options
        \<and> g_n_total_row coincidence_example_band \<noteq> g_band_start coincidence_example_band) \<and>
   compute_schedule_wcc_loop coincidence_example_ops default_options 3 True True False False
       coincidence_example_band
     = compute_schedule_wcc_loop coincidence_example_ops default_options 2 True False False False
         coincidence_example_lp_graph \<and>
   compute_schedule_wcc_loop coincidence_example_ops default_options 3 True True False False
       coincidence_example_band
     = Inr coincidence_example_result \<and>
   carry_dependences coincidence_example_ops default_options 2 coincidence_example_lp_graph
     = Inl (Unknown ''unable to construct non-trivial solution'')"
  by code_simp

text \<open>
  Claim C3, amended: when the loop of \<open>compute_schedule_wcc\<close> runs and the LP of the band is
  infeasible, the schedules, \<open>n_total_row\<close> and \<open>band_start\<close> are as they were when the
  iteration began, and the loop is entered again with \<open>use_coincidence\<close> cleared, whatever
  the functions it calls do, if and only if coincidence constraints were in use and (outer
  coincidence is not forced or the current band is non-empty). In every other case the
  graph goes, in this order: to \<open>compute_next_band\<close> if band depth is not maximised and the
  band is non-empty; to \<open>compute_split_schedule\<close> if a pair of components was recorded
  (\<open>src_scc \<ge> 0\<close>); to \<open>compute_next_band\<close> if the band is non-empty; and to
  \<open>carry_dependences\<close> otherwise.
\<close>

theorem C3_infeasible_lp:
  fixes ops :: "'o sched_ops"
  assumes n: "g_n_row graph < g_maxvar graph"
    and su: "setup_lp ops opts use_coincidence (graph \<lparr> g_src_scc := - 1, g_dst_scc := - 1 \<rparr>) = Some graph1"
    and so: "snd (solve_lp ops graph1) = Some []"
  shows "rows_frame graph (fst (solve_lp ops graph1)) \<and>
    ((\<forall>run :: 'o sched_run.
        wcc_loop_body run ops opts has_coincidence use_coincidence force_coincidence check_conditional graph
          = run (Call_wcc_loop has_coincidence False force_coincidence check_conditional)
              (fst (solve_lp ops graph1)))
       = (use_coincidence \<and> (\<not> force_coincidence \<or> g_n_total_row graph \<noteq> g_band_start graph))) \<and>
    (\<forall>run :: 'o sched_run.
        wcc_loop_body run ops opts has_coincidence use_coincidence force_coincidence check_conditional graph =
          (if use_coincidence \<and> (\<not> force_coincidence \<or> g_n_total_row graph \<noteq> g_band_start graph)
           then run (Call_wcc_loop has_coincidence False force_coincidence check_conditional)
                  (fst (solve_lp ops graph1))
           else if \<not> schedule_maximize_band_depth opts \<and> g_n_total_row graph \<noteq> g_band_start graph
           then run Call_compute_next_band (fst (solve_lp ops graph1))
           else if g_src_scc (fst (solve_lp ops graph1)) \<ge> 0
           then run Call_compute_split_schedule (fst (solve_lp ops graph1))
           else if g_n_total_row graph \<noteq> g_band_start graph
           then run Call_compute_next_band (fst (solve_lp ops graph1))
           else run Call_carry_dependences (fst (solve_lp ops graph1)))) \<and>
    compute_schedule_wcc_loop ops opts (Suc k) has_coincidence use_coincidence force_coincidence
        check_conditional graph =
      (if use_coincidence \<and> (\<not> force_coincidence \<or> g_n_total_row graph \<noteq> g_band_start graph)
       then compute_schedule_wcc_loop ops opts k has_coincidence False force_coincidence
              check_conditional (fst (solve_lp ops graph1))
       else if \<not> schedule_maximize_band_depth opts \<and> g_n_total_row graph \<noteq> g_band_start graph
       then compute_next_band ops opts k (fst (solve_lp ops graph1))
       else if g_src_scc (fst (solve_lp ops graph1)) \<ge> 0
       then compute_split_schedule ops opts k (fst (solve_lp ops graph1))
       else if g_n_total_row graph \<noteq> g_band_start graph
       then compute_next_band ops opts k (fst (solve_lp ops graph1))
       else carry_dependences ops opts k (fst (solve_lp ops graph1)))"
proof -
  define retry where "retry = (use_coincidence \<and> (\<not> force_coincidence \<or> g_n_total_row graph \<noteq> g_band_start graph))"
  define graph2 where "graph2 = fst (solve_lp ops graph1)"
  define c where "c = Call_wcc_loop has_coincidence False force_coincidence check_conditional"
  have body: "wcc_loop_body run ops opts has_coincidence use_coincidence force_coincidence check_conditional graph =
          (if retry then run c graph2
           else if \<not> schedule_maximize_band_depth opts \<and> g_n_total_row graph \<noteq> g_band_start graph
           then run Call_compute_next_band graph2
           else if g_src_scc graph2 \<ge> 0 then run Call_compute_split_schedule graph2
           else if g_n_total_row graph \<noteq> g_band_start graph then run Call_compute_next_band graph2
           else run Call_carry_dependences graph2)" for run :: "'o sched_run"
    unfolding retry_def graph2_def c_def by (rule wcc_loop_body_infeasible(1) [OF n su so])
  have c1: "rows_frame graph graph2"
    unfolding graph2_def by (rule wcc_loop_body_infeasible(2) [OF n su so])
  have c3: "\<forall>run :: 'o sched_run.
        wcc_loop_body run ops opts has_coincidence use_coincidence force_coincidence check_conditional graph =
          (if retry then run c graph2
           else if \<not> schedule_maximize_band_depth opts \<and> g_n_total_row graph \<noteq> g_band_start graph
           then run Call_compute_next_band graph2
           else if g_src_scc graph2 \<ge> 0 then run Call_compute_split_schedule graph2
           else if g_n_total_row graph \<noteq> g_band_start graph then run Call_compute_next_band graph2
           else run Call_carry_dependences graph2)"
    using body by blast
  have c2: "(\<forall>run :: 'o sched_run.
        wcc_loop_body run ops opts has_coincidence use_coincidence force_coincidence check_conditional graph
          = run c graph2) = retry"
  proof
    assume a: "\<forall>run :: 'o sched_run.
        wcc_loop_body run ops opts has_coincidence use_coincidence force_coincidence check_conditional graph
          = run c graph2"
    define tr :: "'o sched_run" where "tr = (\<lambda>call g. if call = c then Inl Failure else Inl Out_of_fuel)"
    have ne: "Call_compute_next_band \<noteq> c" "Call_compute_split_schedule \<noteq> c" "Call_carry_dependences \<noteq> c"
      by (simp_all add: c_def)
    show retry
    proof (rule ccontr)
      assume nr: "\<not> retry"
      have "wcc_loop_body tr ops opts has_coincidence use_coincidence force_coincidence check_conditional graph
              = Inl Out_of_fuel"
        unfolding body using nr ne by (simp add: tr_def)
      moreover have "tr c graph2 = Inl Failure" by (simp add: tr_def)
      ultimately show False using a by simp
    qed
  next
    assume retry
    then show "\<forall>run :: 'o sched_run.
        wcc_loop_body run ops opts has_coincidence use_coincidence force_coincidence check_conditional graph
          = run c graph2"
      using body by simp
  qed
  have c4: "compute_schedule_wcc_loop ops opts (Suc k) has_coincidence use_coincidence force_coincidence
        check_conditional graph =
      (if retry
       then compute_schedule_wcc_loop ops opts k has_coincidence False force_coincidence
              check_conditional graph2
       else if \<not> schedule_maximize_band_depth opts \<and> g_n_total_row graph \<noteq> g_band_start graph
       then compute_next_band ops opts k graph2
       else if g_src_scc graph2 \<ge> 0 then compute_split_schedule ops opts k graph2
       else if g_n_total_row graph \<noteq> g_band_start graph then compute_next_band ops opts k graph2
       else carry_dependences ops opts k graph2)"
    unfolding compute_schedule_wcc_loop_def compute_next_band_def compute_split_schedule_def
      carry_dependences_def
    by (simp add: body c_def)
  show ?thesis using c1 c2 c3 c4 unfolding retry_def graph2_def c_def by blast
qed

theorem C3_infeasible_lp_witness:
  "compute_schedule_wcc_loop coincidence_example_ops default_options (Suc 2) True True False False
       coincidence_example_band
     = compute_schedule_wcc_loop coincidence_example_ops default_options 2 True False False False
         coincidence_example_lp_graph \<and>
   compute_schedule_wcc_loop coincidence_example_ops default_options (Suc 2) True True True False
       coincidence_example_band
     = carry_dependences coincidence_example_ops default_options 2 coincidence_example_lp_graph"
proof -
  have n: "g_n_row coincidence_example_band < g_maxvar coincidence_example_band" by code_simp
  have so: "snd (solve_lp coincidence_example_ops coincidence_example_lp_graph) = Some []"
    by (simp add: coincidence_example_solve)
  have e: "g_n_total_row coincidence_example_band = g_band_start coincidence_example_band"
    "\<not> 0 \<le> g_src_scc coincidence_example_lp_graph"
    by code_simp+
  note a = C3_infeasible_lp [OF n coincidence_example_setup so, of True False False 2]
  note b = C3_infeasible_lp [OF n coincidence_example_setup so, of True True False 2]
  from a have ra: "compute_schedule_wcc_loop coincidence_example_ops default_options (Suc 2) True True
       False False coincidence_example_band
     = compute_schedule_wcc_loop coincidence_example_ops default_options 2 True False False False
         coincidence_example_lp_graph"
    by (simp add: coincidence_example_solve)
  from b e have rb: "compute_schedule_wcc_loop coincidence_example_ops default_options (Suc 2) True True
       True False coincidence_example_band
     = carry_dependences coincidence_example_ops default_options 2 coincidence_example_lp_graph"
    by (simp add: coincidence_example_solve)
  show ?thesis using ra rb by blast
qed

end
